theory Spec2Isabelle
  imports Main "HOL-Library.List_Lexorder" "HOL-Library.Multiset"
begin

text \<open>
  A model of the rule builder \<open>main.py\<close> of singbox-rules: the line normalizer
  \<open>_strip_comment\<close> (here \<open>strip_comment\<close>), the per-source function \<open>parse_clash_or_plain\<close>,
  the part of \<open>main\<close> that merges the sources of one group, and \<open>build_ruleset_json\<close>.
  Exceptions are values: a function that may raise returns \<open>Inl\<close> of the exception or \<open>Inr\<close>
  of its result.
\<close>

section \<open>Python strings and the builtins the rule builder calls\<close>

text \<open>
  A Python \<open>str\<close> is a sequence of Unicode code points; a code point is a natural number.
  Lists of naturals are ordered lexicographically (\<open>HOL-Library.List_Lexorder\<close>), which is
  the order Python's \<open>sorted\<close> uses on \<open>str\<close>.  \<open>py\<close> writes an ASCII literal.
\<close>

type_synonym pystr = "nat list"

definition py :: "string \<Rightarrow> pystr" where
  "py s = map of_char s"

text \<open>The characters for which \<open>str.isspace\<close> holds; \<open>str.strip()\<close> removes exactly these.\<close>

definition py_isspace :: "nat \<Rightarrow> bool" where
  "py_isspace c \<longleftrightarrow>
     (9 \<le> c \<and> c \<le> 13) \<or> (28 \<le> c \<and> c \<le> 32) \<or> c = 133 \<or> c = 160 \<or> c = 5760 \<or>
     (8192 \<le> c \<and> c \<le> 8202) \<or> c = 8232 \<or> c = 8233 \<or> c = 8239 \<or> c = 8287 \<or> c = 12288"

definition lstrip :: "pystr \<Rightarrow> pystr" where
  "lstrip s = dropWhile py_isspace s"

definition rstrip :: "pystr \<Rightarrow> pystr" where
  "rstrip s = rev (dropWhile py_isspace (rev s))"

definition strip :: "pystr \<Rightarrow> pystr" where
  "strip s = rstrip (lstrip s)"

text \<open>\<open>s.startswith(p)\<close>.\<close>

definition startswith :: "pystr \<Rightarrow> pystr \<Rightarrow> bool" where
  "startswith s p \<longleftrightarrow> take (length p) s = p"

text \<open>
  \<open>line.find(sep)\<close>: the lowest index at which \<open>sep\<close> occurs in \<open>line\<close>; \<open>None\<close> stands for
  Python's \<open>-1\<close>.
\<close>

fun py_find :: "pystr \<Rightarrow> pystr \<Rightarrow> nat option" where
  "py_find [] sep = (if sep = [] then Some 0 else None)"
| "py_find (c # cs) sep =
     (if startswith (c # cs) sep then Some 0 else map_option Suc (py_find cs sep))"

text \<open>
  \<open>line.split(sep)\<close> for a one-character separator: every occurrence splits, empty fields
  are kept, and the result has at least one field.  \<open>cur\<close> is the field being read.
\<close>

fun split_from :: "nat \<Rightarrow> pystr \<Rightarrow> pystr \<Rightarrow> pystr list" where
  "split_from sep cur [] = [cur]"
| "split_from sep cur (c # cs) =
     (if c = sep then cur # split_from sep [] cs else split_from sep (cur @ [c]) cs)"

definition py_split :: "nat \<Rightarrow> pystr \<Rightarrow> pystr list" where
  "py_split sep s = split_from sep [] s"

text \<open>
  \<open>text.splitlines()\<close>: the line boundaries are \<open>\n\<close>, \<open>\r\<close>, \<open>\r\n\<close>, \<open>\v\<close>, \<open>\f\<close>,
  \<open>\x1c\<close>, \<open>\x1d\<close>, \<open>\x1e\<close>, \<open>\x85\<close>, U+2028 and U+2029; the boundaries are not kept and a
  final boundary opens no further line.
\<close>

definition is_linebreak :: "nat \<Rightarrow> bool" where
  "is_linebreak c \<longleftrightarrow>
     (10 \<le> c \<and> c \<le> 13) \<or> (28 \<le> c \<and> c \<le> 30) \<or> c = 133 \<or> c = 8232 \<or> c = 8233"

fun lines_from :: "pystr \<Rightarrow> pystr \<Rightarrow> pystr list" where
  "lines_from cur [] = (if cur = [] then [] else [cur])"
| "lines_from cur [c] = (if is_linebreak c then [cur] else [cur @ [c]])"
| "lines_from cur (c # d # cs) =
     (if c = 13 \<and> d = 10 then cur # lines_from [] cs
      else if is_linebreak c then cur # lines_from [] (d # cs)
      else lines_from (cur @ [c]) (d # cs))"

definition splitlines :: "pystr \<Rightarrow> pystr list" where
  "splitlines text = lines_from [] text"

section \<open>What the interpreter and PyYAML supply\<close>

text \<open>
  The objects \<open>yaml.safe_load\<close> can return, as far as the builder looks at them: strings,
  integers, lists, and dicts seen through their string keys (the builder only asks for the
  key \<open>"payload"\<close>).  \<open>PyOther\<close> holds every other object (\<open>None\<close>, booleans, floats, bytes,
  dates, sets).
\<close>

datatype 'o pyval =
    PyStr pystr
  | PyInt int
  | PyList "'o pyval list"
  | PyDict "pystr \<Rightarrow> 'o pyval option"
  | PyOther 'o

datatype py_exn = IndexError | ValueError | LibraryError string

text \<open>
  The parts of the run-time system that are not in the repository are parameters:
  \<^item> \<open>yaml_safe_load\<close>: PyYAML's loader, which returns an object or raises;
  \<^item> \<open>repr_other\<close>: \<open>str()\<close> of an object that is neither a \<open>str\<close> nor an \<open>int\<close>;
  \<^item> \<open>int_max_str_digits\<close>: the interpreter's limit on the number of decimal digits that
    \<open>str()\<close> of an \<open>int\<close> may produce (\<open>sys.get_int_max_str_digits()\<close>, 4300 by default since
    CPython 3.11; 0 switches the limit off);
  \<^item> \<open>upper_nonascii\<close>: the upper-case mapping of a code point from 128 on;
  \<^item> \<open>decimal_nonascii\<close>: whether a code point from 128 on is a decimal digit (\<open>\d\<close>).
\<close>

record 'o py_runtime =
  yaml_safe_load :: "pystr \<Rightarrow> py_exn + 'o pyval"
  repr_other :: "'o pyval \<Rightarrow> py_exn + pystr"
  int_max_str_digits :: nat
  upper_nonascii :: "nat \<Rightarrow> pystr"
  decimal_nonascii :: "nat \<Rightarrow> bool"

definition ascii_upper :: "nat \<Rightarrow> nat" where
  "ascii_upper c = (if 97 \<le> c \<and> c \<le> 122 then c - 32 else c)"

text \<open>\<open>s.upper()\<close> maps each code point on its own; one code point may become several.\<close>

definition py_upper :: "'o py_runtime \<Rightarrow> pystr \<Rightarrow> pystr" where
  "py_upper rt s =
     concat (map (\<lambda>c. if c < 128 then [ascii_upper c] else upper_nonascii rt c) s)"

definition is_decimal :: "'o py_runtime \<Rightarrow> nat \<Rightarrow> bool" where
  "is_decimal rt c = (if c < 128 then 48 \<le> c \<and> c \<le> 57 else decimal_nonascii rt c)"

function decimal_digits :: "nat \<Rightarrow> pystr" where
  "decimal_digits n =
     (if n < 10 then [48 + n] else decimal_digits (n div 10) @ [48 + n mod 10])"
  by pat_completeness auto
termination
  by (relation "measure id") auto

definition int_str :: "int \<Rightarrow> pystr" where
  "int_str i = (if i < 0 then 45 # decimal_digits (nat (- i)) else decimal_digits (nat i))"

text \<open>
  \<open>str(x)\<close>.  A \<open>str\<close> is returned as it is.  An \<open>int\<close> is written in decimal, and the
  conversion raises \<open>ValueError\<close> when the limit is on and the number has more digits than
  the limit allows.
\<close>

fun py_str :: "'o py_runtime \<Rightarrow> 'o pyval \<Rightarrow> py_exn + pystr" where
  "py_str rt (PyStr s) = Inr s"
| "py_str rt (PyInt i) =
     (if 0 < int_max_str_digits rt \<and> 10 ^ int_max_str_digits rt \<le> \<bar>i\<bar>
      then Inl ValueError else Inr (int_str i))"
| "py_str rt v = repr_other rt v"

section \<open>The regular expression of the bare IPv4 network\<close>

text \<open>
  \<open>re.match\<close> is used for its truth value only, so a pattern is matched by trying every way
  to read it; \<open>k\<close> is what has to hold of the rest of the string.  \<open>EndAnchor\<close> is \<open>$\<close>: the
  end of the string, or the position before a newline that ends the string.
\<close>

datatype regex = Digit | Lit nat | Seq regex regex | Opt regex | EndAnchor

primrec rmatch :: "(nat \<Rightarrow> bool) \<Rightarrow> regex \<Rightarrow> pystr \<Rightarrow> (pystr \<Rightarrow> bool) \<Rightarrow> bool" where
  "rmatch dg Digit s k = (case s of [] \<Rightarrow> False | c # cs \<Rightarrow> dg c \<and> k cs)"
| "rmatch dg (Lit a) s k = (case s of [] \<Rightarrow> False | c # cs \<Rightarrow> c = a \<and> k cs)"
| "rmatch dg (Seq r1 r2) s k = rmatch dg r1 s (\<lambda>t. rmatch dg r2 t k)"
| "rmatch dg (Opt r) s k = (rmatch dg r s k \<or> k s)"
| "rmatch dg EndAnchor s k = ((s = [] \<or> s = [10]) \<and> k s)"

definition re_match :: "'o py_runtime \<Rightarrow> regex \<Rightarrow> pystr \<Rightarrow> bool" where
  "re_match rt r s = rmatch (is_decimal rt) r s (\<lambda>_. True)"

definition rep_1_3 :: "regex \<Rightarrow> regex" where
  "rep_1_3 r = Seq r (Opt (Seq r (Opt r)))"

definition rep_1_2 :: "regex \<Rightarrow> regex" where
  "rep_1_2 r = Seq r (Opt r)"

definition rep_3 :: "regex \<Rightarrow> regex" where
  "rep_3 r = Seq r (Seq r r)"

text \<open>The pattern \<^verbatim>\<open>^\d{1,3}(\.\d{1,3}){3}/\d{1,2}$\<close>.\<close>

definition cidr_pattern :: regex where
  "cidr_pattern =
     Seq (rep_1_3 Digit)
       (Seq (rep_3 (Seq (Lit 46) (rep_1_3 Digit)))
         (Seq (Lit 47) (Seq (rep_1_2 Digit) EndAnchor)))"

section \<open>The line normalizer\<close>

text \<open>One round of the loop over the separators: cut at \<open>sep\<close> when it occurs.\<close>

definition cut_at :: "pystr \<Rightarrow> pystr \<Rightarrow> pystr" where
  "cut_at line sep =
     (case py_find line sep of Some idx \<Rightarrow> strip (take idx line) | None \<Rightarrow> line)"

definition strip_comment :: "pystr \<Rightarrow> pystr" where
  "strip_comment line0 =
     (let line = strip line0 in
      if line = [] then []
      else strip (foldl cut_at line [py '' #'', py '' ;'', py '' //'']))"

section \<open>The rule classifier\<close>

text \<open>
  What the body of the loop does with one normalized line: \<open>Domain v\<close>, \<open>DomainSuffix v\<close> and
  \<open>IPNetwork v\<close> stand for \<open>domains.append(v)\<close>, \<open>suffixes.append(v)\<close> and \<open>cidrs.append(v)\<close>;
  \<open>Unsupported\<close> is every path that goes on to the next line with nothing appended.
\<close>

datatype classified_rule = Domain pystr | DomainSuffix pystr | IPNetwork pystr | Unsupported

definition classify :: "'o py_runtime \<Rightarrow> pystr \<Rightarrow> py_exn + classified_rule" where
  "classify rt line =
     (if 44 \<in> set line \<and> \<not> startswith line (py ''http'') then
        (let parts = map strip (py_split 44 line) in
         case parts of
           [] \<Rightarrow> Inl IndexError
         | p0 # _ \<Rightarrow>
            (let rule_type = py_upper rt p0;
                 val = (if length parts > 1 then parts ! 1 else [])
             in if rule_type = py ''DOMAIN'' then
                  Inr (if val \<noteq> [] then Domain val else Unsupported)
                else if rule_type = py ''DOMAIN-SUFFIX'' then
                  Inr (if val \<noteq> [] then DomainSuffix val else Unsupported)
                else if rule_type = py ''IP-CIDR'' \<or> rule_type = py ''IP-CIDR6'' then
                  Inr (if val \<noteq> [] then IPNetwork val else Unsupported)
                else Inr Unsupported))
      else if re_match rt cidr_pattern line then Inr (IPNetwork line)
      else if 46 \<in> set line \<and> 32 \<notin> set line \<and> 47 \<notin> set line then Inr (DomainSuffix line)
      else Inr Unsupported)"

type_synonym rule_lists = "pystr list \<times> pystr list \<times> pystr list"

fun append_rule :: "classified_rule \<Rightarrow> rule_lists \<Rightarrow> rule_lists" where
  "append_rule (Domain v) (domains, suffixes, cidrs) = (domains @ [v], suffixes, cidrs)"
| "append_rule (DomainSuffix v) (domains, suffixes, cidrs) = (domains, suffixes @ [v], cidrs)"
| "append_rule (IPNetwork v) (domains, suffixes, cidrs) = (domains, suffixes, cidrs @ [v])"
| "append_rule Unsupported (domains, suffixes, cidrs) = (domains, suffixes, cidrs)"

text \<open>The loop \<open>for raw in lines\<close>; an exception ends it.\<close>

fun classify_lines :: "'o py_runtime \<Rightarrow> pystr list \<Rightarrow> rule_lists \<Rightarrow> py_exn + rule_lists" where
  "classify_lines rt [] acc = Inr acc"
| "classify_lines rt (raw # lines) acc =
     (let line = strip_comment raw in
      if line = [] then classify_lines rt lines acc
      else (case classify rt line of
              Inl e \<Rightarrow> Inl e
            | Inr r \<Rightarrow> classify_lines rt lines (append_rule r acc)))"

section \<open>The structured payload and the per-source function\<close>

text \<open>
  The \<open>try\<close> block: the payload is the list under the key \<open>"payload"\<close> of a loaded dict;
  every exception of the loader is caught and leaves the payload \<open>None\<close>.
\<close>

definition yaml_payload :: "'o py_runtime \<Rightarrow> pystr \<Rightarrow> 'o pyval list option" where
  "yaml_payload rt text =
     (case yaml_safe_load rt text of
        Inl e \<Rightarrow> None
      | Inr y \<Rightarrow>
         (case y of
            PyDict d \<Rightarrow> (case d (py ''payload'') of Some (PyList xs) \<Rightarrow> Some xs | _ \<Rightarrow> None)
          | _ \<Rightarrow> None))"

text \<open>
  The comprehension \<open>[str(x).strip() for x in payload if str(x).strip()]\<close>, which is outside
  the \<open>try\<close> block: an exception of \<open>str(x)\<close> leaves the function.
\<close>

fun payload_lines :: "'o py_runtime \<Rightarrow> 'o pyval list \<Rightarrow> py_exn + pystr list" where
  "payload_lines rt [] = Inr []"
| "payload_lines rt (x # xs) =
     (case py_str rt x of
        Inl e \<Rightarrow> Inl e
      | Inr s \<Rightarrow>
         (case payload_lines rt xs of
            Inl e \<Rightarrow> Inl e
          | Inr ls \<Rightarrow> Inr (if strip s \<noteq> [] then strip s # ls else ls)))"

definition source_lines :: "'o py_runtime \<Rightarrow> pystr \<Rightarrow> py_exn + pystr list" where
  "source_lines rt text =
     (case yaml_payload rt text of
        Some payload \<Rightarrow> payload_lines rt payload
      | None \<Rightarrow> Inr (splitlines text))"

text \<open>\<open>sorted(set(xs))\<close>.\<close>

definition sorted_set :: "pystr list \<Rightarrow> pystr list" where
  "sorted_set xs = sorted_list_of_set (set xs)"

definition parse_clash_or_plain :: "'o py_runtime \<Rightarrow> pystr \<Rightarrow> py_exn + rule_lists" where
  "parse_clash_or_plain rt text =
     (case source_lines rt text of
        Inl e \<Rightarrow> Inl e
      | Inr lines \<Rightarrow>
         (case classify_lines rt lines ([], [], []) of
            Inl e \<Rightarrow> Inl e
          | Inr (domains, suffixes, cidrs) \<Rightarrow>
              Inr (sorted_set domains, sorted_set suffixes, sorted_set cidrs)))"

section \<open>The group pipeline of \<open>main\<close> and the ruleset document\<close>

datatype json = JInt int | JStr pystr | JList "json list" | JDict "(string \<times> json) list"

definition build_ruleset_json :: "pystr list \<Rightarrow> pystr list \<Rightarrow> pystr list \<Rightarrow> json" where
  "build_ruleset_json domains suffixes cidrs =
     JDict [(''version'', JInt 3),
            (''rules'', JList
               ((if domains \<noteq> [] then [JDict [(''domain'', JList (map JStr domains))]] else []) @
                (if suffixes \<noteq> [] then [JDict [(''domain_suffix'', JList (map JStr suffixes))]] else []) @
                (if cidrs \<noteq> [] then [JDict [(''ip_cidr'', JList (map JStr cidrs))]] else [])))]"

text \<open>
  The loop \<open>for u in urls\<close> of \<open>main\<close> (lines 154 to 159), on the texts that \<open>fetch\<close>
  returned: each text is parsed and its three lists extend \<open>all_domain\<close>, \<open>all_suffix\<close> and
  \<open>all_cidr\<close>.
\<close>

fun extend_all :: "'o py_runtime \<Rightarrow> pystr list \<Rightarrow> rule_lists \<Rightarrow> py_exn + rule_lists" where
  "extend_all rt [] acc = Inr acc"
| "extend_all rt (text # texts) (all_domain, all_suffix, all_cidr) =
     (case parse_clash_or_plain rt text of
        Inl e \<Rightarrow> Inl e
      | Inr (d, s, c) \<Rightarrow> extend_all rt texts (all_domain @ d, all_suffix @ s, all_cidr @ c))"

text \<open>
  The body of the loop over the groups in \<open>main\<close> (lines 146 to 164), on the texts that
  \<open>fetch\<close> returned for the URLs of the group, one text for each URL, so that the list of
  URLs is empty exactly when the list of texts is.  A group without URLs is skipped
  (line 147): nothing is built for it, which is \<open>None\<close>.  Otherwise the lists of all sources
  are merged, deduplicated and sorted.  A configured value that is not a list is skipped
  in the same way; it has no texts and is outside this function.
\<close>

definition classify_and_merge :: "'o py_runtime \<Rightarrow> pystr list \<Rightarrow> py_exn + rule_lists option" where
  "classify_and_merge rt texts =
     (if texts = [] then Inr None
      else (case extend_all rt texts ([], [], []) of
              Inl e \<Rightarrow> Inl e
            | Inr (all_domain, all_suffix, all_cidr) \<Rightarrow>
                Inr (Some (sorted_set all_domain, sorted_set all_suffix, sorted_set all_cidr))))"

text \<open>The same with the document of line 166; a skipped group has no document.\<close>

definition group_ruleset :: "'o py_runtime \<Rightarrow> pystr list \<Rightarrow> py_exn + json option" where
  "group_ruleset rt texts =
     (case classify_and_merge rt texts of
        Inl e \<Rightarrow> Inl e
      | Inr None \<Rightarrow> Inr None
      | Inr (Some (all_domain, all_suffix, all_cidr)) \<Rightarrow>
          Inr (Some (build_ruleset_json all_domain all_suffix all_cidr)))"

section \<open>Notions used to state the properties\<close>

text \<open>Python's order on \<open>str\<close>: code point by code point, a proper prefix first.\<close>

fun str_le :: "pystr \<Rightarrow> pystr \<Rightarrow> bool" where
  "str_le [] ys = True"
| "str_le (x # xs) [] = False"
| "str_le (x # xs) (y # ys) = (x < y \<or> (x = y \<and> str_le xs ys))"

text \<open>The strings that the texts of \<open>T\<close> contribute to each category.\<close>

definition domains_of :: "'o py_runtime \<Rightarrow> pystr set \<Rightarrow> pystr set" where
  "domains_of rt T =
     {x. \<exists>t\<in>T. \<exists>d s c. parse_clash_or_plain rt t = Inr (d, s, c) \<and> x \<in> set d}"

definition suffixes_of :: "'o py_runtime \<Rightarrow> pystr set \<Rightarrow> pystr set" where
  "suffixes_of rt T =
     {x. \<exists>t\<in>T. \<exists>d s c. parse_clash_or_plain rt t = Inr (d, s, c) \<and> x \<in> set s}"

definition cidrs_of :: "'o py_runtime \<Rightarrow> pystr set \<Rightarrow> pystr set" where
  "cidrs_of rt T =
     {x. \<exists>t\<in>T. \<exists>d s c. parse_clash_or_plain rt t = Inr (d, s, c) \<and> x \<in> set c}"

text \<open>
  The least index at which the rest of the string satisfies \<open>P\<close>, and the same index with
  the length of the string when there is none.
\<close>

fun first_idx :: "(pystr \<Rightarrow> bool) \<Rightarrow> pystr \<Rightarrow> nat option" where
  "first_idx P [] = None"
| "first_idx P (c # cs) = (if P (c # cs) then Some 0 else map_option Suc (first_idx P cs))"

definition first_or_end :: "(pystr \<Rightarrow> bool) \<Rightarrow> pystr \<Rightarrow> nat" where
  "first_or_end P s = (case first_idx P s of Some i \<Rightarrow> i | None \<Rightarrow> length s)"

text \<open>
  The normalizer as a sentence describes it: a comment introducer (\<open>#\<close>, \<open>;\<close> or \<open>//\<close>) that
  follows a character satisfying \<open>pre\<close> starts a comment, and the trimmed line is cut at the
  first such place and trimmed again.
\<close>

definition comment_at :: "(nat \<Rightarrow> bool) \<Rightarrow> pystr \<Rightarrow> bool" where
  "comment_at pre s =
     (case s of
        [] \<Rightarrow> False
      | c # t \<Rightarrow> pre c \<and>
          (startswith t (py ''#'') \<or> startswith t (py '';'') \<or> startswith t (py ''//'')))"

definition truncate_comment :: "(nat \<Rightarrow> bool) \<Rightarrow> pystr \<Rightarrow> pystr" where
  "truncate_comment pre line0 =
     (let line = strip line0 in
      case first_idx (comment_at pre) line of
        Some idx \<Rightarrow> strip (take idx line)
      | None \<Rightarrow> line)"

text \<open>
  A run-time system to evaluate examples with: CPython's default digit limit, no case
  mapping and no decimal digits beyond ASCII, and the given loader.  Its only object
  besides strings and integers is \<open>None\<close>, which \<open>str()\<close> writes as \<open>None\<close>; the examples coerce
  no list and no dict.
\<close>

definition sample_runtime :: "(pystr \<Rightarrow> py_exn + unit pyval) \<Rightarrow> unit py_runtime" where
  "sample_runtime load =
     \<lparr> yaml_safe_load = load, repr_other = (\<lambda>_. Inr (py ''None'')),
       int_max_str_digits = 4300, upper_nonascii = (\<lambda>c. [c]),
       decimal_nonascii = (\<lambda>_. False) \<rparr>"

text \<open>The loader on a text that is no YAML document: it raises.\<close>

definition not_yaml :: "pystr \<Rightarrow> py_exn + unit pyval" where
  "not_yaml text = Inl (LibraryError ''ScannerError'')"

text \<open>The loader on a text whose document is the object \<open>v\<close>.\<close>

definition load_as :: "unit pyval \<Rightarrow> pystr \<Rightarrow> py_exn + unit pyval" where
  "load_as v text = Inr v"

text \<open>The integer that the YAML scalar \<open>0xFF...F\<close> with 4000 digits \<open>F\<close> denotes.\<close>

definition hex_4000 :: int where
  "hex_4000 = 16 ^ 4000 - 1"

text \<open>The text \<open>payload: [0xFF...F]\<close> with that scalar.\<close>

definition hex_4000_text :: pystr where
  "hex_4000_text = py ''payload: [0x'' @ replicate 4000 70 @ py '']''"

section \<open>Evaluation of the model on concrete inputs\<close>

lemmas py_eval =
  py_def py_isspace_def lstrip_def rstrip_def strip_def startswith_def py_split_def
  is_linebreak_def splitlines_def ascii_upper_def py_upper_def is_decimal_def
  re_match_def rep_1_3_def rep_1_2_def rep_3_def cidr_pattern_def cut_at_def
  strip_comment_def classify_def yaml_payload_def source_lines_def
  parse_clash_or_plain_def classify_and_merge_def group_ruleset_def
  build_ruleset_json_def sample_runtime_def not_yaml_def load_as_def Let_def

lemma sorted_set_eval: "sorted_set xs = sort (remdups xs)"
  by (simp add: sorted_set_def sorted_list_of_set_sort_remdups)

section \<open>Deduplication and order\<close>

lemma str_le_iff: "str_le xs ys \<longleftrightarrow> xs \<le> ys"
  by (induction xs ys rule: str_le.induct) simp_all

lemma sorted_set_sorted: "sorted_wrt str_le (sorted_set xs)"
proof -
  have "str_le = (\<le>)" by (intro ext) (simp add: str_le_iff)
  then show ?thesis by (simp add: sorted_set_def)
qed

lemma sorted_set_distinct: "distinct (sorted_set xs)"
  by (simp add: sorted_set_def)



lemma of_insert:
  "parse_clash_or_plain rt t = Inr (d, s, c) \<Longrightarrow>
     domains_of rt (insert t T) = set d \<union> domains_of rt T \<and>
     suffixes_of rt (insert t T) = set s \<union> suffixes_of rt T \<and>
     cidrs_of rt (insert t T) = set c \<union> cidrs_of rt T"
  by (auto simp: domains_of_def suffixes_of_def cidrs_of_def)

lemma extend_all_sets:
  "extend_all rt texts (a, b, c) = Inr (a', b', c') \<Longrightarrow>
     (\<forall>t\<in>set texts. \<exists>r. parse_clash_or_plain rt t = Inr r) \<and>
     set a' = set a \<union> domains_of rt (set texts) \<and>
     set b' = set b \<union> suffixes_of rt (set texts) \<and>
     set c' = set c \<union> cidrs_of rt (set texts)"
proof (induction texts arbitrary: a b c)
  case Nil
  then show ?case by (simp add: domains_of_def suffixes_of_def cidrs_of_def)
next
  case (Cons t texts)
  from Cons.prems obtain d s k where p: "parse_clash_or_plain rt t = Inr (d, s, k)"
    and rest: "extend_all rt texts (a @ d, b @ s, c @ k) = Inr (a', b', c')"
    by (auto split: sum.splits)
  from Cons.IH [OF rest] of_insert [OF p, of "set texts"] p
  show ?case by auto
qed

lemma extend_all_total:
  "\<forall>t\<in>set texts. \<exists>r. parse_clash_or_plain rt t = Inr r \<Longrightarrow>
     \<exists>r. extend_all rt texts (a, b, c) = Inr r"
proof (induction texts arbitrary: a b c)
  case Nil
  then show ?case by simp
next
  case (Cons t texts)
  from Cons.prems obtain d s k where p: "parse_clash_or_plain rt t = Inr (d, s, k)"
    by (metis list.set_intros(1) prod_cases3)
  from Cons.IH [of "a @ d" "b @ s" "c @ k"] Cons.prems
  show ?case by (simp add: p)
qed

text \<open>
  The group pipeline builds a RuleSet exactly when the group has sources and every source
  parses, and then each category is the sorted enumeration of the set of strings that the
  sources contribute to it.
\<close>

lemma classify_and_merge_iff:
  "classify_and_merge rt texts = Inr (Some (A, B, C)) \<longleftrightarrow>
     texts \<noteq> [] \<and>
     (\<forall>t\<in>set texts. \<exists>r. parse_clash_or_plain rt t = Inr r) \<and>
     A = sorted_list_of_set (domains_of rt (set texts)) \<and>
     B = sorted_list_of_set (suffixes_of rt (set texts)) \<and>
     C = sorted_list_of_set (cidrs_of rt (set texts))"
proof
  assume "classify_and_merge rt texts = Inr (Some (A, B, C))"
  then obtain a b c where ne: "texts \<noteq> []"
    and e: "extend_all rt texts ([], [], []) = Inr (a, b, c)"
    and r: "A = sorted_set a" "B = sorted_set b" "C = sorted_set c"
    by (auto simp: classify_and_merge_def split: sum.splits if_splits)
  from extend_all_sets [OF e] r ne
  show "texts \<noteq> [] \<and>
     (\<forall>t\<in>set texts. \<exists>r. parse_clash_or_plain rt t = Inr r) \<and>
     A = sorted_list_of_set (domains_of rt (set texts)) \<and>
     B = sorted_list_of_set (suffixes_of rt (set texts)) \<and>
     C = sorted_list_of_set (cidrs_of rt (set texts))"
    by (simp add: sorted_set_def)
next
  assume h: "texts \<noteq> [] \<and>
     (\<forall>t\<in>set texts. \<exists>r. parse_clash_or_plain rt t = Inr r) \<and>
     A = sorted_list_of_set (domains_of rt (set texts)) \<and>
     B = sorted_list_of_set (suffixes_of rt (set texts)) \<and>
     C = sorted_list_of_set (cidrs_of rt (set texts))"
  then obtain r where "extend_all rt texts ([], [], []) = Inr r"
    using extend_all_total by blast
  then obtain a b c where e: "extend_all rt texts ([], [], []) = Inr (a, b, c)"
    by (cases r) auto
  from extend_all_sets [OF e] h e
  show "classify_and_merge rt texts = Inr (Some (A, B, C))"
    by (simp add: classify_and_merge_def sorted_set_def)
qed

lemma classify_and_merge_skip: "classify_and_merge rt texts = Inr None \<longleftrightarrow> texts = []"
  by (auto simp: classify_and_merge_def split: sum.splits)

lemma group_ruleset_iff:
  "group_ruleset rt texts = Inr D \<longleftrightarrow>
     (D = None \<and> classify_and_merge rt texts = Inr None) \<or>
     (\<exists>X Y Z. classify_and_merge rt texts = Inr (Some (X, Y, Z)) \<and>
        D = Some (build_ruleset_json X Y Z))"
  by (auto simp: group_ruleset_def split: sum.splits option.splits)



text \<open>
  C10: whenever the per-source function \<open>parse_clash_or_plain\<close> returns, each of its three
  lists has no string twice and is sorted by code-point order, before any merging.
\<close>

theorem per_source_lists_normalized:
  assumes "parse_clash_or_plain rt text = Inr (d, s, c)"
  shows "distinct d \<and> sorted_wrt str_le d \<and> distinct s \<and> sorted_wrt str_le s \<and>
         distinct c \<and> sorted_wrt str_le c"
proof -
  from assms obtain domains suffixes cidrs where
    "d = sorted_set domains" "s = sorted_set suffixes" "c = sorted_set cidrs"
    by (auto simp: parse_clash_or_plain_def split: sum.splits prod.splits)
  then show ?thesis by (simp add: sorted_set_distinct sorted_set_sorted)
qed

theorem per_source_lists_normalized_witness:
  "parse_clash_or_plain (sample_runtime not_yaml)
       (py ''b.org'' @ [10] @ py ''DOMAIN-SUFFIX,a.com'' @ [10] @ py ''b.org'') =
     Inr ([], [py ''a.com'', py ''b.org''], []) \<and>
   distinct [py ''a.com'', py ''b.org''] \<and> sorted_wrt str_le [py ''a.com'', py ''b.org'']"
proof -
  have e: "parse_clash_or_plain (sample_runtime not_yaml)
       (py ''b.org'' @ [10] @ py ''DOMAIN-SUFFIX,a.com'' @ [10] @ py ''b.org'') =
     Inr ([], [py ''a.com'', py ''b.org''], [])"
    by (simp add: py_eval sorted_set_eval)
  from per_source_lists_normalized [OF e] e show ?thesis by simp
qed



text \<open>
  C7: permuting the source texts of a group leaves the result of the pipeline unchanged:
  the pipeline produces a RuleSet for one order exactly when it produces the same RuleSet
  for the other, and likewise for the document built from it.
\<close>

theorem permuting_sources_keeps_ruleset:
  assumes "mset texts = mset texts'"
  shows "(classify_and_merge rt texts = Inr R \<longleftrightarrow> classify_and_merge rt texts' = Inr R) \<and>
         (group_ruleset rt texts = Inr D \<longleftrightarrow> group_ruleset rt texts' = Inr D)"
proof -
  from assms have s: "set texts = set texts'" by (rule mset_eq_setD)
  then have n: "texts = [] \<longleftrightarrow> texts' = []" by (metis set_empty)
  have e: "classify_and_merge rt texts = Inr Q \<longleftrightarrow> classify_and_merge rt texts' = Inr Q"
    for Q
  proof (cases Q)
    case None
    with n show ?thesis by (simp add: classify_and_merge_skip)
  next
    case (Some r)
    obtain X Y Z where "r = (X, Y, Z)" by (cases r) auto
    with Some s n show ?thesis by (simp add: classify_and_merge_iff)
  qed
  then show ?thesis by (simp add: group_ruleset_iff)
qed

theorem permuting_sources_keeps_ruleset_witness:
  "mset [py ''DOMAIN,a.com'', py ''b.org'', py ''1.2.3.0/24''] =
     mset [py ''1.2.3.0/24'', py ''DOMAIN,a.com'', py ''b.org''] \<and>
   classify_and_merge (sample_runtime not_yaml)
       [py ''DOMAIN,a.com'', py ''b.org'', py ''1.2.3.0/24''] =
     Inr (Some ([py ''a.com''], [py ''b.org''], [py ''1.2.3.0/24''])) \<and>
   classify_and_merge (sample_runtime not_yaml)
       [py ''1.2.3.0/24'', py ''DOMAIN,a.com'', py ''b.org''] =
     Inr (Some ([py ''a.com''], [py ''b.org''], [py ''1.2.3.0/24'']))"
proof -
  let ?rt = "sample_runtime not_yaml"
  have h: "mset [py ''DOMAIN,a.com'', py ''b.org'', py ''1.2.3.0/24''] =
     mset [py ''1.2.3.0/24'', py ''DOMAIN,a.com'', py ''b.org'']"
    by simp
  have p1: "parse_clash_or_plain ?rt (py ''DOMAIN,a.com'') = Inr ([py ''a.com''], [], [])"
    by (simp add: py_eval sorted_set_eval)
  have p2: "parse_clash_or_plain ?rt (py ''b.org'') = Inr ([], [py ''b.org''], [])"
    by (simp add: py_eval sorted_set_eval)
  have p3: "parse_clash_or_plain ?rt (py ''1.2.3.0/24'') = Inr ([], [], [py ''1.2.3.0/24''])"
    by (simp add: py_eval sorted_set_eval)
  have e: "classify_and_merge ?rt [py ''DOMAIN,a.com'', py ''b.org'', py ''1.2.3.0/24''] =
     Inr (Some ([py ''a.com''], [py ''b.org''], [py ''1.2.3.0/24'']))"
    by (simp only: classify_and_merge_def extend_all.simps p1 p2 p3 sum.case prod.case
          list.distinct if_False)
      (simp add: sorted_set_eval py_def)
  from permuting_sources_keeps_ruleset [OF h, THEN conjunct1, THEN iffD1, OF e]
  have e': "classify_and_merge ?rt [py ''1.2.3.0/24'', py ''DOMAIN,a.com'', py ''b.org''] =
     Inr (Some ([py ''a.com''], [py ''b.org''], [py ''1.2.3.0/24'']))" .
  from h e e' show ?thesis by blast
qed

text \<open>
  C8, as amended: a group whose list of sources is empty is skipped without failing, and
  no RuleSet and no document is built for it.  An empty RuleSet, all three categories
  empty and the document \<open>{"version": 3, "rules": []}\<close> with no category object, is what a
  group with sources gives when none of them contributes an entry.
\<close>

theorem empty_source_list_is_skipped:
  "classify_and_merge rt [] = Inr None \<and> group_ruleset rt [] = Inr None \<and>
   (texts \<noteq> [] \<and> (\<forall>t\<in>set texts. parse_clash_or_plain rt t = Inr ([], [], [])) \<longrightarrow>
      classify_and_merge rt texts = Inr (Some ([], [], [])) \<and>
      group_ruleset rt texts =
        Inr (Some (JDict [(''version'', JInt 3), (''rules'', JList [])]))) \<and>
   build_ruleset_json [] [] [] = JDict [(''version'', JInt 3), (''rules'', JList [])]"
proof -
  have skip: "classify_and_merge rt [] = Inr None" by (simp add: classify_and_merge_def)
  then have doc: "group_ruleset rt [] = Inr None" by (simp add: group_ruleset_def)
  have b: "build_ruleset_json [] [] [] = JDict [(''version'', JInt 3), (''rules'', JList [])]"
    by (simp add: build_ruleset_json_def)
  have "classify_and_merge rt texts = Inr (Some ([], [], [])) \<and>
      group_ruleset rt texts =
        Inr (Some (JDict [(''version'', JInt 3), (''rules'', JList [])]))"
    if ne: "texts \<noteq> []" and all: "\<forall>t\<in>set texts. parse_clash_or_plain rt t = Inr ([], [], [])"
  proof -
    from all have "domains_of rt (set texts) = {}" "suffixes_of rt (set texts) = {}"
      "cidrs_of rt (set texts) = {}"
      by (auto simp: domains_of_def suffixes_of_def cidrs_of_def)
    with ne all have m: "classify_and_merge rt texts = Inr (Some ([], [], []))"
      by (simp add: classify_and_merge_iff)
    then show ?thesis by (simp add: group_ruleset_def b)
  qed
  with skip doc b show ?thesis by blast
qed

theorem empty_source_list_is_skipped_witness:
  "parse_clash_or_plain (sample_runtime (load_as (PyOther ()))) [] = Inr ([], [], []) \<and>
   classify_and_merge (sample_runtime (load_as (PyOther ()))) [[]] = Inr (Some ([], [], [])) \<and>
   group_ruleset (sample_runtime (load_as (PyOther ()))) [[]] =
     Inr (Some (JDict [(''version'', JInt 3), (''rules'', JList [])]))"
proof -
  let ?rt = "sample_runtime (load_as (PyOther ()))"
  have p: "parse_clash_or_plain ?rt [] = Inr ([], [], [])"
    by (simp add: py_eval sorted_set_eval)
  then have h: "[[]] \<noteq> ([]::pystr list) \<and>
      (\<forall>t\<in>set [[]]. parse_clash_or_plain ?rt t = Inr ([], [], []))"
    by simp
  from empty_source_list_is_skipped [of ?rt "[[]]"] h p show ?thesis by blast
qed

text \<open>
  The claim C8 as it is stated fails: for an empty list of sources no RuleSet is produced
  and no document is built.
\<close>

theorem empty_source_list_counterexample:
  "classify_and_merge (sample_runtime not_yaml) [] = Inr None \<and>
   classify_and_merge (sample_runtime not_yaml) [] \<noteq> Inr (Some ([], [], [])) \<and>
   group_ruleset (sample_runtime not_yaml) [] = Inr None \<and>
   group_ruleset (sample_runtime not_yaml) [] \<noteq>
     Inr (Some (JDict [(''version'', JInt 3), (''rules'', JList [])]))"
  by (simp add: classify_and_merge_def group_ruleset_def)

section \<open>The regular expression, \<open>split\<close> and \<open>upper\<close>\<close>

lemma rmatch_rest: "rmatch dg r s k \<Longrightarrow> \<exists>p t. s = p @ t \<and> k t"
proof (induction r arbitrary: s k)
  case Digit
  then show ?case by (cases s) (auto intro: exI [of _ "[hd s]"])
next
  case (Lit a)
  then show ?case by (cases s) (auto intro: exI [of _ "[hd s]"])
next
  case (Seq r1 r2)
  from Seq.prems have "rmatch dg r1 s (\<lambda>t. rmatch dg r2 t k)" by simp
  from Seq.IH(1) [OF this] obtain p t where s: "s = p @ t" and "rmatch dg r2 t k"
    by blast
  from Seq.IH(2) [OF this(2)] obtain p' t' where "t = p' @ t'" and "k t'"
    by blast
  with s have "s = (p @ p') @ t' \<and> k t'" by simp
  then show ?case by blast
next
  case (Opt r)
  then show ?case by (auto intro: exI [of _ "[]"])
next
  case EndAnchor
  then show ?case by (auto intro: exI [of _ "[]"])
qed

lemma cidr_match_has_slash:
  assumes "re_match rt cidr_pattern s"
  shows "47 \<in> set s"
proof -
  let ?dg = "is_decimal rt"
  let ?tail = "Seq (rep_1_2 Digit) EndAnchor"
  let ?mid = "rep_3 (Seq (Lit 46) (rep_1_3 Digit))"
  from assms have "rmatch ?dg (rep_1_3 Digit) s
      (\<lambda>t. rmatch ?dg ?mid t (\<lambda>u. rmatch ?dg (Lit 47) u (\<lambda>v. rmatch ?dg ?tail v (\<lambda>_. True))))"
    by (simp add: re_match_def cidr_pattern_def)
  from rmatch_rest [OF this] obtain p t where s: "s = p @ t"
    and "rmatch ?dg ?mid t (\<lambda>u. rmatch ?dg (Lit 47) u (\<lambda>v. rmatch ?dg ?tail v (\<lambda>_. True)))"
    by blast
  from rmatch_rest [OF this(2)] obtain p' u where t: "t = p' @ u"
    and "rmatch ?dg (Lit 47) u (\<lambda>v. rmatch ?dg ?tail v (\<lambda>_. True))"
    by blast
  then have "47 \<in> set u" by (cases u) auto
  with s t show ?thesis by simp
qed

lemma split_from_no_sep: "sep \<notin> set s \<Longrightarrow> split_from sep cur s = [cur @ s]"
  by (induction s arbitrary: cur) auto

lemma split_from_first:
  "sep \<notin> set t \<Longrightarrow> split_from sep cur (t @ sep # rest) = (cur @ t) # split_from sep [] rest"
  by (induction t arbitrary: cur) auto

lemma split_from_nonempty: "split_from sep cur s \<noteq> []"
  by (induction s arbitrary: cur) auto

lemma py_split_fields:
  assumes "sep \<notin> set t" "sep \<notin> set v" "r = [] \<or> hd r = sep"
  shows "\<exists>ps. py_split sep (t @ sep # v @ r) = t # v # ps"
proof (cases r)
  case Nil
  with assms show ?thesis
    by (simp add: py_split_def split_from_first split_from_no_sep)
next
  case (Cons c r')
  with assms have "r = sep # r'" by simp
  with assms show ?thesis
    using split_from_first [of sep v "[]" r'] split_from_first [of sep t "[]" "v @ sep # r'"]
    by (simp add: py_split_def)
qed

lemma strip_keeps_head:
  assumes "\<not> py_isspace c"
  shows "\<exists>r. strip (c # cs) = c # r"
proof -
  have l: "lstrip (c # cs) = c # cs" using assms by (simp add: lstrip_def)
  have "dropWhile py_isspace (rev cs @ [c]) = dropWhile py_isspace (rev cs) @ [c]"
    using assms by (simp add: dropWhile_append3)
  then show ?thesis by (simp add: strip_def l rstrip_def)
qed

lemma upper_of_http:
  assumes "startswith line (py ''http'')" "line = t @ 44 # rest" "44 \<notin> set t"
  shows "\<exists>r. py_upper rt (strip t) = 72 # r"
proof -
  from assms(1) have tk: "take (Suc (Suc (Suc (Suc 0)))) line = [104, 116, 116, 112]"
    by (simp add: startswith_def py_def)
  have "t \<noteq> []"
  proof
    assume "t = []"
    with assms(2) tk show False by simp
  qed
  then obtain c t' where t: "t = c # t'" by (cases t) auto
  with assms(2) tk have "c = 104" by simp
  then have "\<not> py_isspace c" by (simp add: py_isspace_def)
  from strip_keeps_head [OF this] obtain r where "strip (c # t') = c # r" by blast
  with t \<open>c = 104\<close> show ?thesis by (simp add: py_upper_def ascii_upper_def)
qed

section \<open>The classifier\<close>

lemma rule_type_literals:
  "py ''DOMAIN'' \<noteq> py ''DOMAIN-SUFFIX''" "py ''DOMAIN'' \<noteq> py ''IP-CIDR''"
  "py ''DOMAIN'' \<noteq> py ''IP-CIDR6''" "py ''DOMAIN-SUFFIX'' \<noteq> py ''IP-CIDR''"
  "py ''DOMAIN-SUFFIX'' \<noteq> py ''IP-CIDR6''" "py ''IP-CIDR'' \<noteq> py ''IP-CIDR6''"
  "py ''DOMAIN-SUFFIX'' \<noteq> py ''DOMAIN''" "py ''IP-CIDR'' \<noteq> py ''DOMAIN''"
  "py ''IP-CIDR6'' \<noteq> py ''DOMAIN''" "py ''IP-CIDR'' \<noteq> py ''DOMAIN-SUFFIX''"
  "py ''IP-CIDR6'' \<noteq> py ''DOMAIN-SUFFIX''" "py ''IP-CIDR6'' \<noteq> py ''IP-CIDR''"
  by (simp_all add: py_def)

lemma rule_type_no_H:
  "py ''DOMAIN'' \<noteq> 72 # r" "py ''DOMAIN-SUFFIX'' \<noteq> 72 # r"
  "py ''IP-CIDR'' \<noteq> 72 # r" "py ''IP-CIDR6'' \<noteq> 72 # r"
  by (simp_all add: py_def)

text \<open>The classifier on a line with a comma that does not begin with \<open>http\<close>.\<close>

lemma classify_typed:
  assumes "py_split 44 line = t # v # ps" "44 \<in> set line" "\<not> startswith line (py ''http'')"
  shows "classify rt line =
     (if py_upper rt (strip t) = py ''DOMAIN'' then
        Inr (if strip v \<noteq> [] then Domain (strip v) else Unsupported)
      else if py_upper rt (strip t) = py ''DOMAIN-SUFFIX'' then
        Inr (if strip v \<noteq> [] then DomainSuffix (strip v) else Unsupported)
      else if py_upper rt (strip t) = py ''IP-CIDR'' \<or> py_upper rt (strip t) = py ''IP-CIDR6'' then
        Inr (if strip v \<noteq> [] then IPNetwork (strip v) else Unsupported)
      else Inr Unsupported)"
  using assms by (simp add: classify_def Let_def)

lemma classify_other_type:
  assumes "py_split 44 line = t # ps" "44 \<in> set line" "\<not> startswith line (py ''http'')"
    "py_upper rt (strip t) \<noteq> py ''DOMAIN''" "py_upper rt (strip t) \<noteq> py ''DOMAIN-SUFFIX''"
    "py_upper rt (strip t) \<noteq> py ''IP-CIDR''" "py_upper rt (strip t) \<noteq> py ''IP-CIDR6''"
  shows "classify rt line = Inr Unsupported"
  using assms by (simp add: classify_def Let_def)

lemma classify_total: "\<exists>r. classify rt line = Inr r"
proof (cases "py_split 44 line")
  case Nil
  then show ?thesis by (simp add: py_split_def split_from_nonempty)
next
  case (Cons p ps)
  then show ?thesis by (simp add: classify_def Let_def)
qed

lemma classify_bare:
  assumes "44 \<notin> set line \<or> startswith line (py ''http'')"
  shows "classify rt line =
     (if re_match rt cidr_pattern line then Inr (IPNetwork line)
      else if 46 \<in> set line \<and> 32 \<notin> set line \<and> 47 \<notin> set line then Inr (DomainSuffix line)
      else Inr Unsupported)"
  using assms by (auto simp: classify_def)

lemma classify_domain_token:
  assumes "46 \<in> set line" and "\<not> list_ex py_isspace line" and "47 \<notin> set line"
    and "44 \<notin> set line \<or> startswith line (py ''http'')"
  shows "classify rt line = Inr (DomainSuffix line)"
proof -
  from assms(3) have "\<not> re_match rt cidr_pattern line"
    using cidr_match_has_slash by blast
  moreover have "py_isspace 32" by (simp add: py_isspace_def)
  with assms(2) have "32 \<notin> set line" by (auto simp: list_ex_iff)
  ultimately show ?thesis using assms(1,3) classify_bare [OF assms(4), where rt = rt] by simp
qed

section \<open>Trimming and searching\<close>

lemma first_or_end_le: "first_or_end P s \<le> length s"
  by (induction s) (auto simp: first_or_end_def split: option.splits)

lemma first_or_end_holds: "first_or_end P s < length s \<Longrightarrow> P (drop (first_or_end P s) s)"
  by (induction s) (auto simp: first_or_end_def split: option.splits)

lemma first_or_end_least: "j < first_or_end P s \<Longrightarrow> \<not> P (drop j s)"
proof (induction s arbitrary: j)
  case Nil
  then show ?case by (simp add: first_or_end_def)
next
  case (Cons c cs)
  show ?case
  proof (cases j)
    case 0
    with Cons.prems show ?thesis
      by (auto simp: first_or_end_def split: option.splits if_splits)
  next
    case (Suc j')
    with Cons.prems have "j' < first_or_end P cs"
      by (auto simp: first_or_end_def split: option.splits if_splits)
    from Cons.IH [OF this] Suc show ?thesis by simp
  qed
qed

lemma first_or_end_unique:
  assumes "m \<le> length s" "m < length s \<longrightarrow> P (drop m s)" "\<forall>j<m. \<not> P (drop j s)"
  shows "first_or_end P s = m"
proof -
  let ?n = "first_or_end P s"
  have "\<not> ?n < m"
  proof
    assume "?n < m"
    with assms(1) have "?n < length s" by simp
    from first_or_end_holds [OF this] assms(3) \<open>?n < m\<close> show False by blast
  qed
  moreover have "\<not> m < ?n"
  proof
    assume "m < ?n"
    from first_or_end_least [OF this] assms(2) first_or_end_le [of P s] \<open>m < ?n\<close>
    show False by simp
  qed
  ultimately show ?thesis by simp
qed

lemma first_or_end_Nil: "first_or_end P [] = 0"
  by (simp add: first_or_end_def)

lemma first_or_end_Cons:
  "first_or_end P (c # cs) = (if P (c # cs) then 0 else Suc (first_or_end P cs))"
  by (simp add: first_or_end_def split: option.splits)

lemma first_idx_first_or_end:
  "first_idx P s = (if first_or_end P s < length s then Some (first_or_end P s) else None)"
proof (induction s)
  case Nil
  then show ?case by (simp add: first_or_end_Nil)
next
  case (Cons c cs)
  show ?case
  proof (cases "P (c # cs)")
    case True
    then show ?thesis by (simp add: first_or_end_Cons)
  next
    case False
    then have "first_idx P (c # cs) = map_option Suc (first_idx P cs)" by simp
    also have "\<dots> = map_option Suc
        (if first_or_end P cs < length cs then Some (first_or_end P cs) else None)"
      by (simp only: Cons.IH)
    finally show ?thesis using False by (simp add: first_or_end_Cons)
  qed
qed

lemma first_or_end_disj:
  "first_or_end (\<lambda>t. P t \<or> Q t) s = min (first_or_end P s) (first_or_end Q s)"
  by (induction s) (simp_all add: first_or_end_Nil first_or_end_Cons)

lemma py_find_first_idx: "sep \<noteq> [] \<Longrightarrow> py_find s sep = first_idx (\<lambda>t. startswith t sep) s"
  by (induction s) (auto simp: startswith_def)

lemma rstrip_snoc: "rstrip (u @ [c]) = (if py_isspace c then rstrip u else u @ [c])"
  by (simp add: rstrip_def)

text \<open>\<open>rstrip\<close> keeps a prefix that contains every character that is not white space.\<close>

lemma rstrip_take:
  "\<exists>j\<le>length u. rstrip u = take j u \<and> (\<forall>q<length u. \<not> py_isspace (u ! q) \<longrightarrow> q < j)"
proof (induction u rule: rev_induct)
  case Nil
  then show ?case by (simp add: rstrip_def)
next
  case (snoc c u)
  show ?case
  proof (cases "py_isspace c")
    case True
    from snoc.IH obtain j where j: "j \<le> length u" "rstrip u = take j u"
      "\<forall>q<length u. \<not> py_isspace (u ! q) \<longrightarrow> q < j" by blast
    have "\<forall>q<length (u @ [c]). \<not> py_isspace ((u @ [c]) ! q) \<longrightarrow> q < j"
    proof (intro allI impI)
      fix q assume q: "q < length (u @ [c])" "\<not> py_isspace ((u @ [c]) ! q)"
      with True have "q \<noteq> length u" by auto
      with q(1) have "q < length u" by simp
      with q(2) j(3) show "q < j" by (simp add: nth_append)
    qed
    with j True show ?thesis
      by (intro exI [of _ j]) (simp add: rstrip_snoc)
  next
    case False
    then show ?thesis
      by (intro exI [of _ "length (u @ [c])"]) (simp add: rstrip_snoc)
  qed
qed

lemma strip_lclean: "u = [] \<or> \<not> py_isspace (hd u) \<Longrightarrow> strip u = rstrip u"
  by (cases u) (simp_all add: strip_def lstrip_def)

lemma lstrip_head: "lstrip u = [] \<or> \<not> py_isspace (hd (lstrip u))"
  using hd_dropWhile [of py_isspace u] by (auto simp: lstrip_def)

lemma strip_head: "strip u = [] \<or> \<not> py_isspace (hd (strip u))"
proof -
  obtain j where j: "rstrip (lstrip u) = take j (lstrip u)"
    using rstrip_take [of "lstrip u"] by blast
  show ?thesis
  proof (cases "j = 0 \<or> lstrip u = []")
    case True
    with j show ?thesis by (auto simp: strip_def)
  next
    case False
    then have "hd (take j (lstrip u)) = hd (lstrip u)" by (cases "lstrip u"; cases j) auto
    with j lstrip_head [of u] False show ?thesis by (simp add: strip_def)
  qed
qed

lemma strip_idem: "strip (strip u) = strip u"
proof -
  have "strip (strip u) = rstrip (strip u)" using strip_head [of u] by (rule strip_lclean)
  also have "\<dots> = strip u" by (simp add: strip_def rstrip_def)
  finally show ?thesis .
qed

lemma strip_take_lclean:
  assumes "s = [] \<or> \<not> py_isspace (hd s)"
  shows "strip (take i s) = rstrip (take i s)"
proof -
  have "take i s = [] \<or> \<not> py_isspace (hd (take i s))"
    using assms by (cases s; cases i) auto
  then show ?thesis by (rule strip_lclean)
qed

lemma occ_take:
  assumes "sep \<noteq> []"
  shows "startswith (drop k (take j s)) sep \<longleftrightarrow> startswith (drop k s) sep \<and> k + length sep \<le> j"
proof (cases "k + length sep \<le> j")
  case True
  then have "take (length sep) (drop k (take j s)) = take (length sep) (drop k s)"
    by (simp add: drop_take min_def)
  with True show ?thesis by (simp add: startswith_def)
next
  case False
  have "length (take (length sep) (drop k (take j s))) \<le> j - k" by simp
  moreover from False assms have "j - k < length sep" by (cases sep) auto
  ultimately have "length (take (length sep) (drop k (take j s))) < length sep"
    by (rule le_less_trans)
  then have "take (length sep) (drop k (take j s)) \<noteq> sep" by force
  with False show ?thesis by (simp add: startswith_def)
qed

lemma occ_nth:
  assumes "startswith (drop k s) sep" "m < length sep"
  shows "k + m < length s \<and> s ! (k + m) = sep ! m"
proof -
  from assms(1) have e: "take (length sep) (drop k s) = sep" by (simp add: startswith_def)
  then have "length (take (length sep) (drop k s)) = length sep" by simp
  then have l: "length sep \<le> length s - k" by simp
  with assms(2) have lt: "k + m < length s" by simp
  from e have "sep ! m = take (length sep) (drop k s) ! m" by simp
  also have "\<dots> = s ! (k + m)" using assms(2) lt by simp
  finally show ?thesis using lt by simp
qed

text \<open>
  A separator made of a space and characters that are not white space occurs in the
  trimmed cut \<open>line[:i]\<close> exactly where it occurs in the line before \<open>i\<close>, provided the cut
  is at the end of the line or at a white-space character.
\<close>

lemma occ_in_cut:
  assumes sep: "sep = 32 # w" "w \<noteq> []" "\<forall>c\<in>set w. \<not> py_isspace c"
    and i: "i \<le> length s" "i < length s \<longrightarrow> py_isspace (s ! i)"
  shows "startswith (drop k (rstrip (take i s))) sep \<longleftrightarrow> startswith (drop k s) sep \<and> k < i"
proof -
  have li: "length (take i s) = i" using i(1) by simp
  from rstrip_take [of "take i s"]
  obtain j where j0: "j \<le> i" "rstrip (take i s) = take j (take i s)"
    "\<forall>q<i. \<not> py_isspace (take i s ! q) \<longrightarrow> q < j"
    unfolding li by blast
  from j0(3) have j3: "\<forall>q<i. \<not> py_isspace (s ! q) \<longrightarrow> q < j" by simp
  note j = j0(1) j0(2) j3
  from j(1,2) have r: "rstrip (take i s) = take j s" by (simp add: min_def)
  have sepne: "sep \<noteq> []" and len: "length sep = Suc (length w)" using sep by auto
  have "k + length sep \<le> j \<longleftrightarrow> k < i" if o: "startswith (drop k s) sep"
  proof
    assume "k + length sep \<le> j"
    with j(1) len show "k < i" by simp
  next
    assume ki: "k < i"
    have nw: "k + m < length s \<and> \<not> py_isspace (s ! (k + m))" if "1 \<le> m" "m < length sep" for m
    proof -
      from occ_nth [OF o that(2)] have "k + m < length s" "s ! (k + m) = sep ! m" by auto
      moreover from that sep(1) have "sep ! m = w ! (m - 1)" by (cases m) auto
      moreover from that len have "w ! (m - 1) \<in> set w" by (cases m) auto
      ultimately show ?thesis using sep(3) by auto
    qed
    have "\<not> i < k + length sep"
    proof
      assume "i < k + length sep"
      with ki have "1 \<le> i - k" "i - k < length sep" "k + (i - k) = i" by auto
      with nw [of "i - k"] i(2) show False by auto
    qed
    then have "k + length w < i" using len by simp
    moreover from nw [of "length w"] sep(2) len have "\<not> py_isspace (s ! (k + length w))"
      by (cases w) auto
    ultimately have "k + length w < j" using j(3) by blast
    with len show "k + length sep \<le> j" by simp
  qed
  with occ_take [OF sepne, of k j s] r show ?thesis by auto
qed

lemma cut_at_step:
  assumes clean: "s = [] \<or> \<not> py_isspace (hd s)"
    and sep: "sep = 32 # w" "w \<noteq> []" "\<forall>c\<in>set w. \<not> py_isspace c"
    and i: "i \<le> length s" "i < length s \<longrightarrow> py_isspace (s ! i)"
  shows "cut_at (strip (take i s)) sep =
         strip (take (min i (first_or_end (\<lambda>t. startswith t sep) s)) s)"
proof -
  let ?P = "\<lambda>t. startswith t sep"
  let ?r = "strip (take i s)"
  let ?k = "first_or_end ?P s"
  have sepne: "sep \<noteq> []" using sep by simp
  have r: "?r = rstrip (take i s)" using clean by (rule strip_take_lclean)
  have occ: "?P (drop k ?r) \<longleftrightarrow> ?P (drop k s) \<and> k < i" for k
    unfolding r using sep i by (rule occ_in_cut)
  have li: "length (take i s) = i" using i(1) by simp
  from rstrip_take [of "take i s"]
  obtain j where j0: "j \<le> i" "rstrip (take i s) = take j (take i s)"
    unfolding li by blast
  then have j: "j \<le> i" "?r = take j s" by (simp_all add: r min_def)
  have find: "py_find ?r sep = first_idx ?P ?r" using sepne by (rule py_find_first_idx)
  show ?thesis
  proof (cases "?k < i")
    case True
    with i(1) have "?k < length s" by simp
    from first_or_end_holds [OF this] True have here: "?P (drop ?k ?r)" by (simp add: occ)
    then have "?k + length sep \<le> length ?r"
      using occ_nth [OF here, of "length sep - 1"] sepne by (cases sep) auto
    with sepne have lt: "?k < length ?r" by (cases sep) auto
    have "\<forall>n<?k. \<not> ?P (drop n ?r)"
      using first_or_end_least [of _ ?P s] by (simp add: occ)
    with here lt have "first_or_end ?P ?r = ?k"
      by (intro first_or_end_unique) auto
    with lt have "first_idx ?P ?r = Some ?k" by (simp add: first_idx_first_or_end)
    then have "cut_at ?r sep = strip (take ?k ?r)" by (simp add: cut_at_def find)
    also have "take ?k ?r = take ?k s"
    proof -
      from lt have "?k \<le> j" unfolding j(2) by simp
      then show ?thesis unfolding j(2) by (simp add: min_def)
    qed
    finally show ?thesis using True by (simp add: min_def)
  next
    case False
    have "\<forall>n<length ?r. \<not> ?P (drop n ?r)"
    proof (intro allI impI notI)
      fix n assume "?P (drop n ?r)"
      then have "?P (drop n s)" "n < i" by (simp_all add: occ)
      with False first_or_end_least [of n ?P s] show False by simp
    qed
    then have "first_or_end ?P ?r = length ?r"
      by (intro first_or_end_unique) auto
    then have "first_idx ?P ?r = None" by (simp add: first_idx_first_or_end)
    then have "cut_at ?r sep = ?r" by (simp add: cut_at_def find)
    with False show ?thesis by (simp add: min_def)
  qed
qed

lemma cut_at_inv:
  assumes clean: "s = [] \<or> \<not> py_isspace (hd s)"
    and sep: "sep = 32 # w" "w \<noteq> []" "\<forall>c\<in>set w. \<not> py_isspace c"
    and i: "i \<le> length s" "i < length s \<longrightarrow> py_isspace (s ! i)"
    and i': "i' = min i (first_or_end (\<lambda>t. startswith t sep) s)"
  shows "cut_at (strip (take i s)) sep = strip (take i' s)"
    and "i' \<le> length s" and "i' < length s \<longrightarrow> py_isspace (s ! i')"
proof -
  let ?k = "first_or_end (\<lambda>t. startswith t sep) s"
  show "cut_at (strip (take i s)) sep = strip (take i' s)"
    unfolding i' using clean sep i by (rule cut_at_step)
  show "i' \<le> length s" using i(1) i' by simp
  show "i' < length s \<longrightarrow> py_isspace (s ! i')"
  proof (cases "?k < i")
    case True
    with i(1) have "?k < length s" by simp
    from first_or_end_holds [OF this] have "startswith (drop ?k s) sep" .
    from occ_nth [OF this, of 0] sep(1) have "s ! ?k = 32" by simp
    moreover have "py_isspace 32" by (simp add: py_isspace_def)
    ultimately show ?thesis using True i' by (simp add: min_def)
  next
    case False
    with i(2) i' show ?thesis by (simp add: min_def)
  qed
qed

lemma comment_at_space:
  "comment_at (\<lambda>c. c = 32) =
     (\<lambda>t. (startswith t (py '' #'') \<or> startswith t (py '' ;'')) \<or> startswith t (py '' //''))"
proof (intro ext)
  fix t show "comment_at (\<lambda>c. c = 32) t =
     ((startswith t (py '' #'') \<or> startswith t (py '' ;'')) \<or> startswith t (py '' //''))"
    by (cases t) (auto simp: comment_at_def startswith_def py_def)
qed

lemma truncate_comment_first_or_end:
  "truncate_comment pre line =
     strip (take (first_or_end (comment_at pre) (strip line)) (strip line))"
  by (simp add: truncate_comment_def Let_def first_idx_first_or_end strip_idem)

text \<open>
  The normalizer cuts the trimmed line at the first place where a space is followed by
  \<open>#\<close>, \<open>;\<close> or \<open>//\<close>, and trims again.
\<close>

lemma strip_comment_truncate: "strip_comment line = truncate_comment (\<lambda>c. c = 32) line"
proof (cases "strip line = []")
  case True
  then show ?thesis
    by (simp add: strip_comment_def truncate_comment_def)
next
  case False
  let ?s = "strip line"
  let ?a = "first_or_end (\<lambda>t. startswith t (py '' #'')) ?s"
  let ?b = "first_or_end (\<lambda>t. startswith t (py '' ;'')) ?s"
  let ?c = "first_or_end (\<lambda>t. startswith t (py '' //'')) ?s"
  have clean: "?s = [] \<or> \<not> py_isspace (hd ?s)" by (rule strip_head)
  have sa: "py '' #'' = 32 # [35]" "[35::nat] \<noteq> []" "\<forall>c\<in>set [35::nat]. \<not> py_isspace c"
    and sb: "py '' ;'' = 32 # [59]" "[59::nat] \<noteq> []" "\<forall>c\<in>set [59::nat]. \<not> py_isspace c"
    and sc: "py '' //'' = 32 # [47, 47]" "[47, 47::nat] \<noteq> []"
      "\<forall>c\<in>set [47, 47::nat]. \<not> py_isspace c"
    by (simp_all add: py_def py_isspace_def)
  have i0: "length ?s \<le> length ?s" "length ?s < length ?s \<longrightarrow> py_isspace (?s ! length ?s)"
    by simp_all
  have a: "?a = min (length ?s) ?a"
    using first_or_end_le [of "\<lambda>t. startswith t (py '' #'')" ?s] by (simp add: min_def)
  note 1 = cut_at_inv [OF clean sa i0 a]
  note 2 = cut_at_inv [OF clean sb 1(2) 1(3) refl]
  note 3 = cut_at_inv [OF clean sc 2(2) 2(3) refl]
  have "strip_comment line =
      strip (cut_at (cut_at (cut_at (strip (take (length ?s) ?s)) (py '' #'')) (py '' ;'')) (py '' //''))"
    using False by (simp add: strip_comment_def Let_def strip_idem)
  also have "\<dots> = strip (take (min (min ?a ?b) ?c) ?s)"
    by (simp only: 1(1) 2(1) 3(1) strip_idem)
  also have "min (min ?a ?b) ?c = first_or_end (comment_at (\<lambda>c. c = 32)) ?s"
    by (simp only: comment_at_space first_or_end_disj)
  finally show ?thesis by (simp only: truncate_comment_first_or_end)
qed

lemma strip_comment_empty_iff: "strip_comment line = [] \<longleftrightarrow> strip line = []"
proof
  assume "strip line = []"
  then show "strip_comment line = []" by (simp add: strip_comment_def)
next
  assume e: "strip_comment line = []"
  show "strip line = []"
  proof (rule ccontr)
    assume ne: "strip line \<noteq> []"
    let ?s = "strip line"
    let ?n = "first_or_end (comment_at (\<lambda>c. c = 32)) ?s"
    from ne strip_head [of line] obtain c cs where s: "?s = c # cs" and c: "\<not> py_isspace c"
      by (cases ?s) auto
    have "?n \<noteq> 0"
    proof
      assume z: "?n = 0"
      with ne have "?n < length ?s" by simp
      from first_or_end_holds [OF this] z have "comment_at (\<lambda>c. c = 32) ?s" by simp
      with s have "c = 32" by (simp add: comment_at_def)
      with c show False by (simp add: py_isspace_def)
    qed
    then obtain m where "?n = Suc m" by (cases ?n) auto
    with s have "take ?n ?s = c # take m cs" by simp
    with strip_keeps_head [OF c, of "take m cs"] obtain r where "strip (take ?n ?s) = c # r"
      by auto
    with e show False
      by (simp add: strip_comment_truncate truncate_comment_first_or_end)
  qed
qed

section \<open>The normalizer\<close>

text \<open>
  C3, as amended: the normalizer trims the line, cuts it at the first place where a space
  (U+0020) is followed by \<open>#\<close>, \<open>;\<close> or \<open>//\<close>, and trims again; where no such place exists the
  trimmed line is returned whole, so that a token that does not follow a space never cuts.
\<close>

theorem normalizer_cuts_at_space_comment:
  "strip_comment line = truncate_comment (\<lambda>c. c = 32) line \<and>
   (first_idx (comment_at (\<lambda>c. c = 32)) (strip line) = None \<longrightarrow>
      strip_comment line = strip line)"
  by (simp add: strip_comment_truncate truncate_comment_def)

theorem normalizer_cuts_at_space_comment_witness:
  "first_idx (comment_at (\<lambda>c. c = 32)) (strip (py ''http://a.b/#x;y '')) = None \<and>
   strip_comment (py ''http://a.b/#x;y '') = py ''http://a.b/#x;y'' \<and>
   strip_comment (py '' a.com  ; ads # old'') = py ''a.com''"
proof -
  have n: "first_idx (comment_at (\<lambda>c. c = 32)) (strip (py ''http://a.b/#x;y '')) = None"
    by (simp add: py_eval comment_at_def)
  have s: "strip (py ''http://a.b/#x;y '') = py ''http://a.b/#x;y''"
    by (simp add: py_eval)
  have t: "truncate_comment (\<lambda>c. c = 32) (py '' a.com  ; ads # old'') = py ''a.com''"
    by (simp add: py_eval truncate_comment_def comment_at_def)
  from normalizer_cuts_at_space_comment [of "py ''http://a.b/#x;y ''", THEN conjunct2] n
  have "strip_comment (py ''http://a.b/#x;y '') = strip (py ''http://a.b/#x;y '')"
    by (rule mp)
  then have 1: "strip_comment (py ''http://a.b/#x;y '') = py ''http://a.b/#x;y''"
    using s by (rule trans)
  from normalizer_cuts_at_space_comment [of "py '' a.com  ; ads # old''", THEN conjunct1] t
  have 2: "strip_comment (py '' a.com  ; ads # old'') = py ''a.com''"
    by (rule trans)
  from n 1 2 show ?thesis by blast
qed

text \<open>
  The claim C3 as it is stated fails: in \<open>a.b<TAB>#x\<close> the token \<open>#\<close> follows white space,
  and the normalizer does not cut there.
\<close>

theorem normalizer_whitespace_counterexample:
  "py_isspace 9 \<and>
   truncate_comment py_isspace (py ''a.b'' @ [9] @ py ''#x'') = py ''a.b'' \<and>
   strip_comment (py ''a.b'' @ [9] @ py ''#x'') = py ''a.b'' @ [9] @ py ''#x''"
  by (simp add: py_eval truncate_comment_def comment_at_def)

text \<open>
  C9: normalization does not remove a line that begins with a comment introducer.  The
  line \<open>#ads.example.com\<close> is returned as it is and classified as \<open>DomainSuffix\<close> of itself,
  the \<open>#\<close> included; in general the normalizer returns the empty string only for a line that
  is empty after trimming.
\<close>

theorem leading_comment_token_kept:
  "strip_comment (py ''#ads.example.com'') = py ''#ads.example.com'' \<and>
   classify rt (py ''#ads.example.com'') = Inr (DomainSuffix (py ''#ads.example.com'')) \<and>
   classify_lines rt [py ''#ads.example.com''] ([], [], []) =
     Inr ([], [py ''#ads.example.com''], []) \<and>
   (strip_comment line = [] \<longleftrightarrow> strip line = [])"
proof -
  have n: "strip_comment (py ''#ads.example.com'') = py ''#ads.example.com''"
    by (simp add: py_eval)
  have "46 \<in> set (py ''#ads.example.com'')" "\<not> list_ex py_isspace (py ''#ads.example.com'')"
    "47 \<notin> set (py ''#ads.example.com'')" "44 \<notin> set (py ''#ads.example.com'')"
    by (simp_all add: py_def py_isspace_def)
  then have c: "classify rt (py ''#ads.example.com'') = Inr (DomainSuffix (py ''#ads.example.com''))"
    by (intro classify_domain_token) simp_all
  have ne: "py ''#ads.example.com'' \<noteq> []" by (simp add: py_def)
  have "classify_lines rt [py ''#ads.example.com''] ([], [], []) =
     Inr ([], [py ''#ads.example.com''], [])"
    by (simp add: n c ne)
  with n c show ?thesis by (simp add: strip_comment_empty_iff)
qed

section \<open>The classifier in the loop\<close>

text \<open>What one round of the loop does with a line whose normal form is classified.\<close>

lemma classify_lines_step:
  assumes "strip_comment raw = line" "line \<noteq> []" "classify rt line = Inr r"
  shows "classify_lines rt (raw # lines) acc = classify_lines rt lines (append_rule r acc)"
  using assms by (simp add: Let_def)

lemma dropWhile_none: "\<forall>x\<in>set xs. \<not> P x \<Longrightarrow> dropWhile P xs = xs"
  by (cases xs) auto

lemma strip_no_space:
  assumes "\<not> list_ex py_isspace line"
  shows "strip line = line"
proof -
  from assms have a: "\<forall>x\<in>set line. \<not> py_isspace x" by (simp add: list_ex_iff)
  then have "\<forall>x\<in>set (rev line). \<not> py_isspace x" by simp
  then have "dropWhile py_isspace (rev line) = rev line" by (rule dropWhile_none)
  with dropWhile_none [OF a] show ?thesis by (simp add: strip_def lstrip_def rstrip_def)
qed

text \<open>A line without white space is its own normal form.\<close>

lemma strip_comment_no_space:
  assumes "\<not> list_ex py_isspace line"
  shows "strip_comment line = line"
proof -
  from assms have a: "\<forall>x\<in>set line. \<not> py_isspace x" by (simp add: list_ex_iff)
  have "\<forall>j<length line. \<not> comment_at (\<lambda>c. c = 32) (drop j line)"
  proof (intro allI impI notI)
    fix j assume j: "j < length line" and c: "comment_at (\<lambda>c. c = 32) (drop j line)"
    from j have "drop j line = line ! j # drop (Suc j) line" by (simp add: Cons_nth_drop_Suc)
    with c have "line ! j = 32" by (simp add: comment_at_def)
    moreover from j a have "\<not> py_isspace (line ! j)" by simp
    ultimately show False by (simp add: py_isspace_def)
  qed
  then have "first_or_end (comment_at (\<lambda>c. c = 32)) line = length line"
    by (intro first_or_end_unique) auto
  then have "first_idx (comment_at (\<lambda>c. c = 32)) line = None"
    by (simp add: first_idx_first_or_end)
  then show ?thesis
    by (simp add: strip_comment_truncate truncate_comment_def strip_no_space [OF assms])
qed

text \<open>
  C2, as amended: a line that contains a dot, no whitespace and no slash, and that has no
  comma or begins with \<open>http\<close>, is classified as \<open>DomainSuffix\<close> of the line itself: the loop
  appends the line, as it is, to the suffix list and to no other list.
\<close>

theorem bare_domain_is_suffix:
  assumes "46 \<in> set line" and "\<not> list_ex py_isspace line" and "47 \<notin> set line"
    and "44 \<notin> set line \<or> startswith line (py ''http'')"
  shows "classify rt line = Inr (DomainSuffix line) \<and>
         classify_lines rt (line # lines) (domains, suffixes, cidrs) =
           classify_lines rt lines (domains, suffixes @ [line], cidrs) \<and>
         classify_lines rt [line] (domains, suffixes, cidrs) =
           Inr (domains, suffixes @ [line], cidrs)"
proof -
  from assms have c: "classify rt line = Inr (DomainSuffix line)"
    by (rule classify_domain_token)
  from assms(1) have ne: "line \<noteq> []" by auto
  note n = strip_comment_no_space [OF assms(2)]
  have "classify_lines rt (line # ls) (domains, suffixes, cidrs) =
      classify_lines rt ls (domains, suffixes @ [line], cidrs)" for ls
    using classify_lines_step [OF n ne c, of ls "(domains, suffixes, cidrs)"] by simp
  from this [of lines] this [of "[]"] c show ?thesis by simp
qed

theorem bare_domain_is_suffix_witness:
  "46 \<in> set (py ''httpbin.org,x'') \<and> \<not> list_ex py_isspace (py ''httpbin.org,x'') \<and>
   47 \<notin> set (py ''httpbin.org,x'') \<and> startswith (py ''httpbin.org,x'') (py ''http'') \<and>
   classify (sample_runtime not_yaml) (py ''httpbin.org,x'') =
     Inr (DomainSuffix (py ''httpbin.org,x'')) \<and>
   classify_lines (sample_runtime not_yaml) [py ''httpbin.org,x''] ([], [py ''a.org''], []) =
     Inr ([], [py ''a.org'', py ''httpbin.org,x''], [])"
proof -
  have h: "46 \<in> set (py ''httpbin.org,x'')" "\<not> list_ex py_isspace (py ''httpbin.org,x'')"
    "47 \<notin> set (py ''httpbin.org,x'')" "startswith (py ''httpbin.org,x'') (py ''http'')"
    by (simp_all add: py_def py_isspace_def startswith_def)
  note t = bare_domain_is_suffix [OF h(1) h(2) h(3) disjI2, OF h(4),
      of "sample_runtime not_yaml" "[]" "[]" "[py ''a.org'']" "[]"]
  from t have 1: "classify (sample_runtime not_yaml) (py ''httpbin.org,x'') =
     Inr (DomainSuffix (py ''httpbin.org,x''))" by (rule conjunct1)
  from t have "classify_lines (sample_runtime not_yaml) [py ''httpbin.org,x'']
      ([], [py ''a.org''], []) = Inr ([], [py ''a.org''] @ [py ''httpbin.org,x''], [])"
    by blast
  then have 2: "classify_lines (sample_runtime not_yaml) [py ''httpbin.org,x'']
      ([], [py ''a.org''], []) = Inr ([], [py ''a.org'', py ''httpbin.org,x''], [])"
    by (simp only: append.simps)
  from h 1 2 show ?thesis by blast
qed

text \<open>
  The claim C2 as it is stated fails: the normalized line \<open>DOMAIN,example.com\<close> contains a
  dot, no whitespace and no slash, and is classified as \<open>Domain\<close> of \<open>example.com\<close>: the loop
  appends \<open>example.com\<close> to the domain list and nothing to the suffix list.
\<close>

theorem bare_domain_claim_counterexample:
  "strip_comment (py ''DOMAIN,example.com'') = py ''DOMAIN,example.com'' \<and>
   46 \<in> set (py ''DOMAIN,example.com'') \<and>
   \<not> list_ex py_isspace (py ''DOMAIN,example.com'') \<and>
   47 \<notin> set (py ''DOMAIN,example.com'') \<and>
   classify (sample_runtime not_yaml) (py ''DOMAIN,example.com'') =
     Inr (Domain (py ''example.com'')) \<and>
   classify (sample_runtime not_yaml) (py ''DOMAIN,example.com'') \<noteq>
     Inr (DomainSuffix (py ''DOMAIN,example.com'')) \<and>
   classify_lines (sample_runtime not_yaml) [py ''DOMAIN,example.com''] ([], [], []) =
     Inr ([py ''example.com''], [], []) \<and>
   classify_lines (sample_runtime not_yaml) [py ''DOMAIN,example.com''] ([], [], []) \<noteq>
     Inr ([], [py ''DOMAIN,example.com''], [])"
  by (simp add: py_eval)

text \<open>
  C4: let a normalized line be \<open>T,V\<close> or \<open>T,V,...\<close>, with no comma in \<open>T\<close> and \<open>V\<close>.  If \<open>T\<close>,
  trimmed and upper-cased, is \<open>DOMAIN\<close>, \<open>DOMAIN-SUFFIX\<close>, \<open>IP-CIDR\<close> or \<open>IP-CIDR6\<close> and \<open>V\<close>
  trims to a non-empty string, the line is classified as \<open>Domain\<close>, \<open>DomainSuffix\<close> or
  \<open>IPNetwork\<close> of \<open>V\<close> trimmed: the loop appends \<open>V\<close> trimmed to the domain list, the suffix
  list or the network list, and to no other.  If \<open>T\<close>, trimmed and upper-cased, is none of
  the four and the line does not begin with \<open>http\<close>, the line is \<open>Unsupported\<close>: the loop
  goes on with the three lists as they are.  \<open>raw\<close> is any line of the source whose normal
  form is the line.
\<close>

theorem typed_line_classification:
  assumes "line = T @ 44 # V @ R" and "44 \<notin> set T" and "44 \<notin> set V"
    and "R = [] \<or> (\<exists>R'. R = 44 # R')"
  shows
    "(py_upper rt (strip T) = py ''DOMAIN'' \<and> strip V \<noteq> [] \<longrightarrow>
        classify rt line = Inr (Domain (strip V)) \<and>
        (strip_comment raw = line \<longrightarrow>
           classify_lines rt (raw # lines) (domains, suffixes, cidrs) =
             classify_lines rt lines (domains @ [strip V], suffixes, cidrs))) \<and>
     (py_upper rt (strip T) = py ''DOMAIN-SUFFIX'' \<and> strip V \<noteq> [] \<longrightarrow>
        classify rt line = Inr (DomainSuffix (strip V)) \<and>
        (strip_comment raw = line \<longrightarrow>
           classify_lines rt (raw # lines) (domains, suffixes, cidrs) =
             classify_lines rt lines (domains, suffixes @ [strip V], cidrs))) \<and>
     (py_upper rt (strip T) = py ''IP-CIDR'' \<and> strip V \<noteq> [] \<longrightarrow>
        classify rt line = Inr (IPNetwork (strip V)) \<and>
        (strip_comment raw = line \<longrightarrow>
           classify_lines rt (raw # lines) (domains, suffixes, cidrs) =
             classify_lines rt lines (domains, suffixes, cidrs @ [strip V]))) \<and>
     (py_upper rt (strip T) = py ''IP-CIDR6'' \<and> strip V \<noteq> [] \<longrightarrow>
        classify rt line = Inr (IPNetwork (strip V)) \<and>
        (strip_comment raw = line \<longrightarrow>
           classify_lines rt (raw # lines) (domains, suffixes, cidrs) =
             classify_lines rt lines (domains, suffixes, cidrs @ [strip V]))) \<and>
     (py_upper rt (strip T) \<noteq> py ''DOMAIN'' \<and> py_upper rt (strip T) \<noteq> py ''DOMAIN-SUFFIX'' \<and>
      py_upper rt (strip T) \<noteq> py ''IP-CIDR'' \<and> py_upper rt (strip T) \<noteq> py ''IP-CIDR6'' \<and>
      \<not> startswith line (py ''http'') \<longrightarrow>
        classify rt line = Inr Unsupported \<and>
        (strip_comment raw = line \<longrightarrow>
           classify_lines rt (raw # lines) (domains, suffixes, cidrs) =
             classify_lines rt lines (domains, suffixes, cidrs)))"
proof -
  from assms(4) have "R = [] \<or> hd R = 44" by auto
  from py_split_fields [OF assms(2) assms(3) this] assms(1)
  obtain ps where parts: "py_split 44 line = T # V # ps" by blast
  from assms(1) have comma: "44 \<in> set line" by simp
  then have ne: "line \<noteq> []" by auto
  have nh: "\<not> startswith line (py ''http'')"
    if "py_upper rt (strip T) = py ''DOMAIN'' \<or> py_upper rt (strip T) = py ''DOMAIN-SUFFIX'' \<or>
        py_upper rt (strip T) = py ''IP-CIDR'' \<or> py_upper rt (strip T) = py ''IP-CIDR6''"
  proof
    assume "startswith line (py ''http'')"
    from upper_of_http [OF this assms(1) assms(2), of rt] that show False
      by (auto simp: rule_type_no_H)
  qed
  have loop: "strip_comment raw = line \<longrightarrow>
      classify_lines rt (raw # lines) (domains, suffixes, cidrs) =
        classify_lines rt lines (append_rule r (domains, suffixes, cidrs))"
    if "classify rt line = Inr r" for r
    using classify_lines_step [OF _ ne that] by blast
  have d: "classify rt line = Inr (Domain (strip V))"
    if "py_upper rt (strip T) = py ''DOMAIN'' \<and> strip V \<noteq> []"
    using classify_typed [OF parts comma, where rt = rt] nh that by simp
  have s: "classify rt line = Inr (DomainSuffix (strip V))"
    if "py_upper rt (strip T) = py ''DOMAIN-SUFFIX'' \<and> strip V \<noteq> []"
    using classify_typed [OF parts comma, where rt = rt] nh that
    by (simp add: rule_type_literals)
  have c4: "classify rt line = Inr (IPNetwork (strip V))"
    if "py_upper rt (strip T) = py ''IP-CIDR'' \<and> strip V \<noteq> []"
    using classify_typed [OF parts comma, where rt = rt] nh that
    by (simp add: rule_type_literals)
  have c6: "classify rt line = Inr (IPNetwork (strip V))"
    if "py_upper rt (strip T) = py ''IP-CIDR6'' \<and> strip V \<noteq> []"
    using classify_typed [OF parts comma, where rt = rt] nh that
    by (simp add: rule_type_literals)
  have u: "classify rt line = Inr Unsupported"
    if "py_upper rt (strip T) \<noteq> py ''DOMAIN'' \<and> py_upper rt (strip T) \<noteq> py ''DOMAIN-SUFFIX'' \<and>
      py_upper rt (strip T) \<noteq> py ''IP-CIDR'' \<and> py_upper rt (strip T) \<noteq> py ''IP-CIDR6'' \<and>
      \<not> startswith line (py ''http'')"
    using classify_other_type [OF parts comma, where rt = rt] that by simp
  from d loop [OF d] have 1: "py_upper rt (strip T) = py ''DOMAIN'' \<and> strip V \<noteq> [] \<longrightarrow>
        classify rt line = Inr (Domain (strip V)) \<and>
        (strip_comment raw = line \<longrightarrow>
           classify_lines rt (raw # lines) (domains, suffixes, cidrs) =
             classify_lines rt lines (domains @ [strip V], suffixes, cidrs))"
    by simp
  from s loop [OF s] have 2: "py_upper rt (strip T) = py ''DOMAIN-SUFFIX'' \<and> strip V \<noteq> [] \<longrightarrow>
        classify rt line = Inr (DomainSuffix (strip V)) \<and>
        (strip_comment raw = line \<longrightarrow>
           classify_lines rt (raw # lines) (domains, suffixes, cidrs) =
             classify_lines rt lines (domains, suffixes @ [strip V], cidrs))"
    by simp
  from c4 loop [OF c4] have 3: "py_upper rt (strip T) = py ''IP-CIDR'' \<and> strip V \<noteq> [] \<longrightarrow>
        classify rt line = Inr (IPNetwork (strip V)) \<and>
        (strip_comment raw = line \<longrightarrow>
           classify_lines rt (raw # lines) (domains, suffixes, cidrs) =
             classify_lines rt lines (domains, suffixes, cidrs @ [strip V]))"
    by simp
  from c6 loop [OF c6] have 4: "py_upper rt (strip T) = py ''IP-CIDR6'' \<and> strip V \<noteq> [] \<longrightarrow>
        classify rt line = Inr (IPNetwork (strip V)) \<and>
        (strip_comment raw = line \<longrightarrow>
           classify_lines rt (raw # lines) (domains, suffixes, cidrs) =
             classify_lines rt lines (domains, suffixes, cidrs @ [strip V]))"
    by simp
  from u loop [OF u] have 5: "py_upper rt (strip T) \<noteq> py ''DOMAIN'' \<and>
      py_upper rt (strip T) \<noteq> py ''DOMAIN-SUFFIX'' \<and>
      py_upper rt (strip T) \<noteq> py ''IP-CIDR'' \<and> py_upper rt (strip T) \<noteq> py ''IP-CIDR6'' \<and>
      \<not> startswith line (py ''http'') \<longrightarrow>
        classify rt line = Inr Unsupported \<and>
        (strip_comment raw = line \<longrightarrow>
           classify_lines rt (raw # lines) (domains, suffixes, cidrs) =
             classify_lines rt lines (domains, suffixes, cidrs))"
    by simp
  from 1 2 3 4 5 show ?thesis by blast
qed

theorem typed_line_classification_witness:
  "classify_lines (sample_runtime not_yaml)
     [py ''  domain , example.com ,x  # note'', py ''DOMAIN-SUFFIX,ads.example.net'',
      py ''IP-CIDR,1.2.3.0/24,no-resolve'', py ''ip-cidr6, 2001:db8::/32'',
      py ''DOMAIN-KEYWORD,foo'']
     ([], [], []) =
   Inr ([py ''example.com''], [py ''ads.example.net''],
        [py ''1.2.3.0/24'', py ''2001:db8::/32''])"
proof -
  let ?rt = "sample_runtime not_yaml"
  let ?r2 = "py ''DOMAIN-SUFFIX,ads.example.net''"
  let ?r3 = "py ''IP-CIDR,1.2.3.0/24,no-resolve''"
  let ?r4 = "py ''ip-cidr6, 2001:db8::/32''"
  let ?r5 = "py ''DOMAIN-KEYWORD,foo''"
  have 1: "classify_lines ?rt (py ''  domain , example.com ,x  # note'' # [?r2, ?r3, ?r4, ?r5])
      ([], [], []) = classify_lines ?rt [?r2, ?r3, ?r4, ?r5] ([py ''example.com''], [], [])"
  proof -
    have l: "py ''domain , example.com ,x'' = py ''domain '' @ 44 # py '' example.com '' @ py '',x''"
      and t: "44 \<notin> set (py ''domain '')" and v: "44 \<notin> set (py '' example.com '')"
      and r: "py '',x'' = [] \<or> (\<exists>R'. py '',x'' = 44 # R')"
      by (simp_all add: py_def)
    have n: "strip_comment (py ''  domain , example.com ,x  # note'') = py ''domain , example.com ,x''"
      and u: "py_upper ?rt (strip (py ''domain '')) = py ''DOMAIN''"
      and sv: "strip (py '' example.com '') = py ''example.com''"
      and ne: "strip (py '' example.com '') \<noteq> []"
      by (simp_all add: py_eval)
    from typed_line_classification [OF l t v r, of ?rt "py ''  domain , example.com ,x  # note''"
        "[?r2, ?r3, ?r4, ?r5]" "[]" "[]" "[]"] n u ne
    have "classify_lines ?rt (py ''  domain , example.com ,x  # note'' # [?r2, ?r3, ?r4, ?r5])
      ([], [], []) =
      classify_lines ?rt [?r2, ?r3, ?r4, ?r5] ([] @ [strip (py '' example.com '')], [], [])"
      by blast
    then show ?thesis by (simp only: sv append.simps)
  qed
  have 2: "classify_lines ?rt (?r2 # [?r3, ?r4, ?r5]) ([py ''example.com''], [], []) =
      classify_lines ?rt [?r3, ?r4, ?r5] ([py ''example.com''], [py ''ads.example.net''], [])"
  proof -
    have l: "?r2 = py ''DOMAIN-SUFFIX'' @ 44 # py ''ads.example.net'' @ []"
      and t: "44 \<notin> set (py ''DOMAIN-SUFFIX'')" and v: "44 \<notin> set (py ''ads.example.net'')"
      and r: "([]::pystr) = [] \<or> (\<exists>R'. ([]::pystr) = 44 # R')"
      by (simp_all add: py_def)
    have n: "strip_comment ?r2 = ?r2"
      and u: "py_upper ?rt (strip (py ''DOMAIN-SUFFIX'')) = py ''DOMAIN-SUFFIX''"
      and sv: "strip (py ''ads.example.net'') = py ''ads.example.net''"
      and ne: "strip (py ''ads.example.net'') \<noteq> []"
      by (simp_all add: py_eval)
    from typed_line_classification [OF l t v r, of ?rt ?r2 "[?r3, ?r4, ?r5]"
        "[py ''example.com'']" "[]" "[]"] n u ne
    have "classify_lines ?rt (?r2 # [?r3, ?r4, ?r5]) ([py ''example.com''], [], []) =
      classify_lines ?rt [?r3, ?r4, ?r5]
        ([py ''example.com''], [] @ [strip (py ''ads.example.net'')], [])"
      by blast
    then show ?thesis by (simp only: sv append.simps)
  qed
  have 3: "classify_lines ?rt (?r3 # [?r4, ?r5])
      ([py ''example.com''], [py ''ads.example.net''], []) =
      classify_lines ?rt [?r4, ?r5]
        ([py ''example.com''], [py ''ads.example.net''], [py ''1.2.3.0/24''])"
  proof -
    have l: "?r3 = py ''IP-CIDR'' @ 44 # py ''1.2.3.0/24'' @ py '',no-resolve''"
      and t: "44 \<notin> set (py ''IP-CIDR'')" and v: "44 \<notin> set (py ''1.2.3.0/24'')"
      and r: "py '',no-resolve'' = [] \<or> (\<exists>R'. py '',no-resolve'' = 44 # R')"
      by (simp_all add: py_def)
    have n: "strip_comment ?r3 = ?r3"
      and u: "py_upper ?rt (strip (py ''IP-CIDR'')) = py ''IP-CIDR''"
      and sv: "strip (py ''1.2.3.0/24'') = py ''1.2.3.0/24''"
      and ne: "strip (py ''1.2.3.0/24'') \<noteq> []"
      by (simp_all add: py_eval)
    from typed_line_classification [OF l t v r, of ?rt ?r3 "[?r4, ?r5]"
        "[py ''example.com'']" "[py ''ads.example.net'']" "[]"] n u ne
    have "classify_lines ?rt (?r3 # [?r4, ?r5])
        ([py ''example.com''], [py ''ads.example.net''], []) =
      classify_lines ?rt [?r4, ?r5]
        ([py ''example.com''], [py ''ads.example.net''], [] @ [strip (py ''1.2.3.0/24'')])"
      by blast
    then show ?thesis by (simp only: sv append.simps)
  qed
  have 4: "classify_lines ?rt (?r4 # [?r5])
      ([py ''example.com''], [py ''ads.example.net''], [py ''1.2.3.0/24'']) =
      classify_lines ?rt [?r5]
        ([py ''example.com''], [py ''ads.example.net''],
         [py ''1.2.3.0/24'', py ''2001:db8::/32''])"
  proof -
    have l: "?r4 = py ''ip-cidr6'' @ 44 # py '' 2001:db8::/32'' @ []"
      and t: "44 \<notin> set (py ''ip-cidr6'')" and v: "44 \<notin> set (py '' 2001:db8::/32'')"
      and r: "([]::pystr) = [] \<or> (\<exists>R'. ([]::pystr) = 44 # R')"
      by (simp_all add: py_def)
    have n: "strip_comment ?r4 = ?r4"
      and u: "py_upper ?rt (strip (py ''ip-cidr6'')) = py ''IP-CIDR6''"
      and sv: "strip (py '' 2001:db8::/32'') = py ''2001:db8::/32''"
      and ne: "strip (py '' 2001:db8::/32'') \<noteq> []"
      by (simp_all add: py_eval)
    from typed_line_classification [OF l t v r, of ?rt ?r4 "[?r5]"
        "[py ''example.com'']" "[py ''ads.example.net'']" "[py ''1.2.3.0/24'']"] n u ne
    have "classify_lines ?rt (?r4 # [?r5])
        ([py ''example.com''], [py ''ads.example.net''], [py ''1.2.3.0/24'']) =
      classify_lines ?rt [?r5]
        ([py ''example.com''], [py ''ads.example.net''],
         [py ''1.2.3.0/24''] @ [strip (py '' 2001:db8::/32'')])"
      by blast
    then show ?thesis by (simp only: sv append.simps)
  qed
  have 5: "classify_lines ?rt (?r5 # [])
      ([py ''example.com''], [py ''ads.example.net''],
       [py ''1.2.3.0/24'', py ''2001:db8::/32'']) =
      classify_lines ?rt []
        ([py ''example.com''], [py ''ads.example.net''],
         [py ''1.2.3.0/24'', py ''2001:db8::/32''])"
  proof -
    have l: "?r5 = py ''DOMAIN-KEYWORD'' @ 44 # py ''foo'' @ []"
      and t: "44 \<notin> set (py ''DOMAIN-KEYWORD'')" and v: "44 \<notin> set (py ''foo'')"
      and r: "([]::pystr) = [] \<or> (\<exists>R'. ([]::pystr) = 44 # R')"
      by (simp_all add: py_def)
    have n: "strip_comment ?r5 = ?r5"
      and u: "py_upper ?rt (strip (py ''DOMAIN-KEYWORD'')) \<noteq> py ''DOMAIN''"
        "py_upper ?rt (strip (py ''DOMAIN-KEYWORD'')) \<noteq> py ''DOMAIN-SUFFIX''"
        "py_upper ?rt (strip (py ''DOMAIN-KEYWORD'')) \<noteq> py ''IP-CIDR''"
        "py_upper ?rt (strip (py ''DOMAIN-KEYWORD'')) \<noteq> py ''IP-CIDR6''"
        "\<not> startswith ?r5 (py ''http'')"
      by (simp_all add: py_eval)
    from typed_line_classification [OF l t v r, of ?rt ?r5 "[]"
        "[py ''example.com'']" "[py ''ads.example.net'']"
        "[py ''1.2.3.0/24'', py ''2001:db8::/32'']"] n u
    show ?thesis by blast
  qed
  show ?thesis by (simp only: 1 2 3 4 5 classify_lines.simps(1))
qed

section \<open>The structured payload\<close>

lemma yaml_payload_list:
  "yaml_safe_load rt text = Inr (PyDict d) \<Longrightarrow> d (py ''payload'') = Some (PyList xs) \<Longrightarrow>
     yaml_payload rt text = Some xs"
  by (simp add: yaml_payload_def)

lemma payload_lines_ok:
  "map (py_str rt) xs = map Inr ss \<Longrightarrow>
     payload_lines rt xs = Inr (filter (\<lambda>l. l \<noteq> []) (map strip ss))"
proof (induction xs arbitrary: ss)
  case Nil
  then show ?case by simp
next
  case (Cons x xs)
  from Cons.prems obtain s ss' where ss: "ss = s # ss'" and x: "py_str rt x = Inr s"
    and rest: "map (py_str rt) xs = map Inr ss'"
    by (cases ss) auto
  from Cons.IH [OF rest] x ss show ?case by simp
qed

lemma payload_lines_raises:
  "x \<in> set xs \<Longrightarrow> py_str rt x = Inl e \<Longrightarrow> \<exists>e'. payload_lines rt xs = Inl e'"
  by (induction xs) (auto split: sum.splits)

lemma strip_Nil: "strip [] = []"
  by (simp add: strip_def lstrip_def rstrip_def)

lemma strip_comment_Nil: "strip_comment [] = []"
  by (simp add: strip_comment_def strip_Nil)

lemma classify_lines_filter:
  "classify_lines rt (filter (\<lambda>l. l \<noteq> []) ls) acc = classify_lines rt ls acc"
  by (induction ls arbitrary: acc) (auto simp: strip_comment_Nil Let_def split: sum.splits)

lemma classify_lines_total: "\<exists>r. classify_lines rt ls acc = Inr r"
proof (induction ls arbitrary: acc)
  case Nil
  then show ?case by (simp del: split_paired_Ex)
next
  case (Cons raw ls)
  obtain r where "classify rt (strip_comment raw) = Inr r"
    using classify_total by blast
  with Cons.IH show ?case by (simp add: Let_def del: split_paired_Ex)
qed

text \<open>
  The per-source function returns exactly when the entry lines are obtained, that is,
  unless \<open>str()\<close> of an element of the payload raises.
\<close>

lemma parse_returns_iff:
  "(\<exists>r. parse_clash_or_plain rt text = Inr r) \<longleftrightarrow> (\<exists>ls. source_lines rt text = Inr ls)"
proof
  assume "\<exists>r. parse_clash_or_plain rt text = Inr r"
  then show "\<exists>ls. source_lines rt text = Inr ls"
    by (auto simp: parse_clash_or_plain_def split: sum.splits)
next
  assume "\<exists>ls. source_lines rt text = Inr ls"
  then obtain ls where ls: "source_lines rt text = Inr ls" by blast
  obtain r where "classify_lines rt ls ([], [], []) = Inr r"
    using classify_lines_total by blast
  with ls show "\<exists>r. parse_clash_or_plain rt text = Inr r"
    by (cases r) (simp add: parse_clash_or_plain_def)
qed

text \<open>An exception of the loader is caught, and the text is read line by line.\<close>

lemma loader_exception_falls_back:
  assumes "yaml_safe_load rt text = Inl e"
  shows "source_lines rt text = Inr (splitlines text)"
    and "\<exists>r. parse_clash_or_plain rt text = Inr r"
proof -
  show "source_lines rt text = Inr (splitlines text)"
    using assms by (simp add: source_lines_def yaml_payload_def)
  then show "\<exists>r. parse_clash_or_plain rt text = Inr r"
    by (intro parse_returns_iff [THEN iffD2] exI)
qed

lemma no_payload_returns:
  assumes "yaml_payload rt text = None"
  shows "\<exists>r. parse_clash_or_plain rt text = Inr r"
  using assms by (intro parse_returns_iff [THEN iffD2]) (simp add: source_lines_def)

lemma string_payload_returns:
  assumes "yaml_payload rt text = Some xs" "map (py_str rt) xs = map Inr ss"
  shows "\<exists>r. parse_clash_or_plain rt text = Inr r"
  using assms payload_lines_ok [OF assms(2)]
  by (intro parse_returns_iff [THEN iffD2]) (simp add: source_lines_def)

lemma py_str_int_over_limit:
  "0 < int_max_str_digits rt \<Longrightarrow> 10 ^ int_max_str_digits rt \<le> \<bar>i\<bar> \<Longrightarrow>
     py_str rt (PyInt i) = Inl ValueError"
  by simp

lemma below_pred_abs: "a < b \<Longrightarrow> (0::int) \<le> a \<Longrightarrow> a \<le> \<bar>b - 1\<bar>"
  by simp

lemma hex_4000_digits: "(10::int) ^ 4300 \<le> \<bar>hex_4000\<bar>"
proof -
  have "(10::int) ^ 43 < 16 ^ 40" by simp
  then have "((10::int) ^ 43) ^ 100 < (16 ^ 40) ^ 100"
    by (rule power_strict_mono) simp_all
  then have "(10::int) ^ (43 * 100) < 16 ^ (40 * 100)"
    by (simp only: power_mult)
  moreover have "(43::nat) * 100 = 4300" "(40::nat) * 100 = 4000" by simp_all
  ultimately have lt: "(10::int) ^ 4300 < 16 ^ 4000" by (simp only:)
  have "(0::int) \<le> 10 ^ 4300" by (rule zero_le_power) simp
  with lt show ?thesis unfolding hex_4000_def by (rule below_pred_abs)
qed

lemma py_str_digit:
  assumes "0 \<le> i" "i < 10"
  shows "py_str rt (PyInt i) = Inr [48 + nat i]"
proof -
  have "\<not> (0 < int_max_str_digits rt \<and> 10 ^ int_max_str_digits rt \<le> \<bar>i\<bar>)"
  proof
    assume a: "0 < int_max_str_digits rt \<and> 10 ^ int_max_str_digits rt \<le> \<bar>i\<bar>"
    then have "(10::int) \<le> 10 ^ int_max_str_digits rt" by (intro self_le_power) simp_all
    with a assms show False by simp
  qed
  moreover have "int_str i = [48 + nat i]" using assms by (simp add: int_str_def)
  ultimately show ?thesis by (simp only: py_str.simps if_False)
qed

text \<open>
  C1, as amended: when the text loads as a mapping that has the key \<open>payload\<close> with a list
  as its value, and \<open>str()\<close> of each element returns, the entry sequence consists of the
  elements of that list, each coerced to its string and trimmed, those that trim to the
  empty string left out; the raw text is not split into lines, and the result is the
  classification of the trimmed strings.
\<close>

theorem payload_list_is_entry_sequence:
  assumes "yaml_safe_load rt text = Inr (PyDict d)"
    and "d (py ''payload'') = Some (PyList xs)"
    and "map (py_str rt) xs = map Inr ss"
  shows "source_lines rt text = Inr (filter (\<lambda>l. l \<noteq> []) (map strip ss)) \<and>
         parse_clash_or_plain rt text =
           (case classify_lines rt (map strip ss) ([], [], []) of
              Inl e \<Rightarrow> Inl e
            | Inr (domains, suffixes, cidrs) \<Rightarrow>
                Inr (sorted_set domains, sorted_set suffixes, sorted_set cidrs))"
proof -
  from yaml_payload_list [OF assms(1) assms(2)] payload_lines_ok [OF assms(3)]
  have l: "source_lines rt text = Inr (filter (\<lambda>l. l \<noteq> []) (map strip ss))"
    by (simp add: source_lines_def)
  then show ?thesis
    by (simp add: parse_clash_or_plain_def classify_lines_filter)
qed

theorem payload_list_is_entry_sequence_witness:
  "source_lines
     (sample_runtime (load_as (PyDict [py ''payload'' \<mapsto>
        PyList [PyStr (py ''DOMAIN,a.com''), PyStr (py ''  ''), PyInt 7, PyStr (py '' b.org '')]])))
     (py ''payload:'' @ [10] @ py ''  - DOMAIN,a.com'' @ [10] @
      py ''  - '' @ [34] @ py ''  '' @ [34, 10] @ py ''  - 7'' @ [10] @
      py ''  - '' @ [34] @ py '' b.org '' @ [34]) =
     Inr [py ''DOMAIN,a.com'', py ''7'', py ''b.org''] \<and>
   parse_clash_or_plain
     (sample_runtime (load_as (PyDict [py ''payload'' \<mapsto>
        PyList [PyStr (py ''DOMAIN,a.com''), PyStr (py ''  ''), PyInt 7, PyStr (py '' b.org '')]])))
     (py ''payload:'' @ [10] @ py ''  - DOMAIN,a.com'' @ [10] @
      py ''  - '' @ [34] @ py ''  '' @ [34, 10] @ py ''  - 7'' @ [10] @
      py ''  - '' @ [34] @ py '' b.org '' @ [34]) =
     Inr ([py ''a.com''], [py ''b.org''], [])"
proof -
  let ?xs = "[PyStr (py ''DOMAIN,a.com''), PyStr (py ''  ''), PyInt 7, PyStr (py '' b.org '')]"
  let ?d = "[py ''payload'' \<mapsto> PyList ?xs]"
  let ?rt = "sample_runtime (load_as (PyDict ?d))"
  let ?ss = "[py ''DOMAIN,a.com'', py ''  '', py ''7'', py '' b.org '']"
  let ?text = "py ''payload:'' @ [10] @ py ''  - DOMAIN,a.com'' @ [10] @
      py ''  - '' @ [34] @ py ''  '' @ [34, 10] @ py ''  - 7'' @ [10] @
      py ''  - '' @ [34] @ py '' b.org '' @ [34]"
  have a: "yaml_safe_load ?rt ?text = Inr (PyDict ?d)"
    by (simp add: sample_runtime_def load_as_def)
  have b: "?d (py ''payload'') = Some (PyList ?xs)" by simp
  have "py_str ?rt (PyInt 7) = Inr (py ''7'')"
    using py_str_digit [of 7 ?rt] by (simp add: py_def)
  then have c: "map (py_str ?rt) ?xs = map Inr ?ss"
    by (simp only: list.map py_str.simps(1))
  have f: "filter (\<lambda>l. l \<noteq> []) (map strip ?ss) = [py ''DOMAIN,a.com'', py ''7'', py ''b.org'']"
    by (simp add: py_eval)
  have g: "(case classify_lines ?rt (map strip ?ss) ([], [], []) of
              Inl e \<Rightarrow> Inl e
            | Inr (domains, suffixes, cidrs) \<Rightarrow>
                Inr (sorted_set domains, sorted_set suffixes, sorted_set cidrs)) =
           Inr ([py ''a.com''], [py ''b.org''], [])"
    by (simp add: py_eval sorted_set_eval)
  from payload_list_is_entry_sequence [OF a b c] show ?thesis
    by (simp only: f g)
qed

text \<open>
  The claim C1 as it is stated fails: a text that loads as a mapping whose key \<open>rules\<close> has a
  list as its value is split into lines, and the elements of the list are not the entries.
\<close>

theorem list_under_other_key_counterexample:
  "yaml_safe_load
     (sample_runtime (load_as (PyDict [py ''rules'' \<mapsto> PyList [PyStr (py ''DOMAIN,a.com'')]])))
     (py ''rules:'' @ [10] @ py ''- DOMAIN,a.com'') =
     Inr (PyDict [py ''rules'' \<mapsto> PyList [PyStr (py ''DOMAIN,a.com'')]]) \<and>
   [py ''rules'' \<mapsto> PyList [PyStr (py ''DOMAIN,a.com'') :: unit pyval]] (py ''rules'') =
     Some (PyList [PyStr (py ''DOMAIN,a.com'')]) \<and>
   source_lines
     (sample_runtime (load_as (PyDict [py ''rules'' \<mapsto> PyList [PyStr (py ''DOMAIN,a.com'')]])))
     (py ''rules:'' @ [10] @ py ''- DOMAIN,a.com'') =
     Inr [py ''rules:'', py ''- DOMAIN,a.com''] \<and>
   source_lines
     (sample_runtime (load_as (PyDict [py ''rules'' \<mapsto> PyList [PyStr (py ''DOMAIN,a.com'')]])))
     (py ''rules:'' @ [10] @ py ''- DOMAIN,a.com'') \<noteq>
     Inr [py ''DOMAIN,a.com''] \<and>
   parse_clash_or_plain
     (sample_runtime (load_as (PyDict [py ''rules'' \<mapsto> PyList [PyStr (py ''DOMAIN,a.com'')]])))
     (py ''rules:'' @ [10] @ py ''- DOMAIN,a.com'') =
     Inr ([], [], [])"
  by (simp add: py_eval sorted_set_eval)

text \<open>
  C5 fails on the code: the text \<open>payload: [0xFF...F]\<close> with 4000 hexadecimal digits loads
  as a mapping whose payload holds an integer of more than 4300 decimal digits, \<open>str()\<close> of
  that integer raises \<open>ValueError\<close> outside the \<open>try\<close> block, and the function raises.
\<close>

theorem huge_hex_payload_raises:
  "parse_clash_or_plain
     (sample_runtime (load_as (PyDict [py ''payload'' \<mapsto> PyList [PyInt hex_4000]])))
     hex_4000_text = Inl ValueError"
proof -
  let ?rt = "sample_runtime (load_as (PyDict [py ''payload'' \<mapsto> PyList [PyInt hex_4000]]))"
  have m: "int_max_str_digits ?rt = 4300" by (simp add: sample_runtime_def)
  have "py_str ?rt (PyInt hex_4000) = Inl ValueError"
  proof (rule py_str_int_over_limit)
    show "0 < int_max_str_digits ?rt" by (simp add: m)
    show "10 ^ int_max_str_digits ?rt \<le> \<bar>hex_4000\<bar>" unfolding m by (rule hex_4000_digits)
  qed
  then have "payload_lines ?rt [PyInt hex_4000] = Inl ValueError"
    by (simp only: payload_lines.simps sum.case)
  moreover have "yaml_payload ?rt hex_4000_text = Some [PyInt hex_4000]"
    by (simp add: yaml_payload_def sample_runtime_def load_as_def)
  ultimately show ?thesis
    by (simp only: parse_clash_or_plain_def source_lines_def option.case sum.case)
qed

end
